theory Spec2Isabelle
  imports Main "HOL-Library.Word"
begin

unbundle bit_operations_syntax

section \<open>Buffered byte streams and the wire codec of libutil/serialise.cc\<close>

text \<open>
  The development follows \<^verbatim>\<open>src/libutil/serialise.cc\<close>. A C++ object is a record of its
  fields, a virtual method is a function parameter, an exception is an \<open>error\<close> value
  returned next to the state the object is left in when the exception unwinds, and a
  buffer is the list of bytes it holds.
\<close>

type_synonym byte = "8 word"

text \<open>
  The exception classes thrown or caught in the file: \<^verbatim>\<open>SysError\<close>, \<^verbatim>\<open>EndOfFile\<close>,
  \<^verbatim>\<open>SerialisationError\<close>, the plain \<^verbatim>\<open>Error\<close> of the bounded string reader, the
  \<^verbatim>\<open>Interrupted\<close> of the interruption hook and the \<^verbatim>\<open>std::out_of_range\<close> of the string
  library.
\<close>

datatype error = SysError | EndOfFile | SerialisationError | Error | Interrupted | OutOfRange

subsection \<open>BufferedSink\<close>

text \<open>
  \<^verbatim>\<open>BufferedSink\<close> has the fields \<^verbatim>\<open>bufSize\<close>, \<^verbatim>\<open>bufPos\<close> and the lazily allocated
  \<^verbatim>\<open>buffer\<close> (\<open>None\<close> is the null pointer). The field \<open>derived\<close> holds the state of the
  subclass, which is all that the virtual \<^verbatim>\<open>write\<close> sees: a writer takes it and the run
  of bytes and returns the exception it throws, if any, and the new subclass state.
\<close>

record 'w BufferedSink =
  bufSize :: nat
  bufPos :: nat
  buffer :: "byte list option"
  derived :: 'w

type_synonym 'w writer = "'w \<Rightarrow> byte list \<Rightarrow> error option \<times> 'w"

text \<open>
  \<^verbatim>\<open>buffer.get()\<close>: the bytes of the buffer. The cursor is only advanced after the
  allocation, so the null case is not read with a nonzero cursor.
\<close>

definition buffer_get :: "'w BufferedSink \<Rightarrow> byte list" where
  "buffer_get snk = (case buffer snk of None \<Rightarrow> [] | Some b \<Rightarrow> b)"

text \<open>
  \<^verbatim>\<open>
  void BufferedSink::flush()
  {
      if (bufPos == 0) return;
      size_t n = bufPos;
      bufPos = 0; // don't trigger the assert() in ~BufferedSink()
      write(buffer.get(), n);
  }
  \<close>
\<close>

definition BufferedSink_flush :: "'w writer \<Rightarrow> 'w BufferedSink \<Rightarrow> error option \<times> 'w BufferedSink" where
  "BufferedSink_flush wr snk =
     (if bufPos snk = 0 then (None, snk)
      else
        let n = bufPos snk;
            snk1 = snk\<lparr>bufPos := 0\<rparr>;
            (r, w') = wr (derived snk1) (take n (buffer_get snk1))
        in (r, snk1\<lparr>derived := w'\<rparr>))"

text \<open>
  \<^verbatim>\<open>memcpy(buffer.get() + bufPos, data, n)\<close> on the buffer's bytes.
\<close>

definition buffer_store :: "byte list \<Rightarrow> nat \<Rightarrow> byte list \<Rightarrow> byte list" where
  "buffer_store b pos run = take pos b @ run @ drop (pos + length run) b"

text \<open>
  The loop of \<^verbatim>\<open>BufferedSink::operator ()\<close>, on the bytes still to push:
  \<^verbatim>\<open>
  while (len) {
      if (bufPos + len >= bufSize) {
          flush();
          write(data, len);
          break;
      }
      size_t n = bufPos + len > bufSize ? bufSize - bufPos : len;
      memcpy(buffer.get() + bufPos, data, n);
      data += n; bufPos += n; len -= n;
      if (bufPos == bufSize) flush();
  }
  \<close>
  An exception of \<^verbatim>\<open>flush\<close> or \<^verbatim>\<open>write\<close> leaves the loop with the state reached.
\<close>

function BufferedSink_loop :: "'w writer \<Rightarrow> 'w BufferedSink \<Rightarrow> byte list \<Rightarrow> error option \<times> 'w BufferedSink" where
  "BufferedSink_loop wr snk data =
     (if length data = 0 then (None, snk)
      else if bufPos snk + length data \<ge> bufSize snk then
        (case BufferedSink_flush wr snk of
           (Some e, snk1) \<Rightarrow> (Some e, snk1)
         | (None, snk1) \<Rightarrow>
             (case wr (derived snk1) data of (r, w') \<Rightarrow> (r, snk1\<lparr>derived := w'\<rparr>)))
      else
        let n = (if bufPos snk + length data > bufSize snk then bufSize snk - bufPos snk
                 else length data);
            snk1 = snk\<lparr>buffer := Some (buffer_store (buffer_get snk) (bufPos snk) (take n data)),
                       bufPos := bufPos snk + n\<rparr>;
            rest = drop n data
        in if bufPos snk1 = bufSize snk1 then
             (case BufferedSink_flush wr snk1 of
                (Some e, snk2) \<Rightarrow> (Some e, snk2)
              | (None, snk2) \<Rightarrow> BufferedSink_loop wr snk2 rest)
           else BufferedSink_loop wr snk1 rest)"
  by pat_completeness auto
termination
  by (relation "measure (\<lambda>(wr, snk, data). length data)") auto

text \<open>
  \<^verbatim>\<open>
  void BufferedSink::operator () (const unsigned char * data, size_t len)
  {
      if (!buffer) buffer = decltype(buffer)(new unsigned char[bufSize]);
      while (len) { ... }
  }
  \<close>
  The fresh array is indeterminate in C++; it is never read before it is written, and the
  model fills it with zeros.
\<close>

definition BufferedSink_call :: "'w writer \<Rightarrow> 'w BufferedSink \<Rightarrow> byte list \<Rightarrow> error option \<times> 'w BufferedSink" where
  "BufferedSink_call wr snk data =
     BufferedSink_loop wr
       (if buffer snk = None then snk\<lparr>buffer := Some (replicate (bufSize snk) 0)\<rparr> else snk)
       data"

subsection \<open>FdSink\<close>

text \<open>
  The fields of \<^verbatim>\<open>FdSink\<close> beyond the buffer: the descriptor \<^verbatim>\<open>fd\<close> (with everything behind
  it), \<^verbatim>\<open>warn\<close>, \<^verbatim>\<open>written\<close> and \<^verbatim>\<open>_good\<close>. The function-level \<^verbatim>\<open>static bool warned\<close> and
  the number of messages printed by \<^verbatim>\<open>warnLargeDump\<close> are process-wide; they are kept in
  the same record.
\<close>

record 'fd FdSink =
  fd :: 'fd
  warn :: bool
  written :: nat
  good :: bool
  warned :: bool
  warnings :: nat

text \<open>\<^verbatim>\<open>size_t threshold = 256 * 1024 * 1024;\<close>\<close>

definition threshold :: nat where
  "threshold = 256 * 1024 * 1024"

text \<open>
  \<^verbatim>\<open>writeFull\<close> is defined in util.cc; it is a parameter here: it takes the descriptor and
  the bytes and returns the exception it throws, if any, and the descriptor afterwards.
  \<^verbatim>\<open>
  void FdSink::write(const unsigned char * data, size_t len)
  {
      written += len;
      static bool warned = false;
      if (warn && !warned) {
          if (written > threshold) {
              warnLargeDump();
              warned = true;
          }
      }
      try {
          writeFull(fd, data, len);
      } catch (SysError & e) {
          _good = true;
      }
  }
  \<close>
\<close>

definition FdSink_write :: "'fd writer \<Rightarrow> 'fd FdSink \<Rightarrow> byte list \<Rightarrow> error option \<times> 'fd FdSink" where
  "FdSink_write writeFull st data =
     (let st1 = st\<lparr>written := written st + length data\<rparr>;
          st2 = (if warn st1 \<and> \<not> warned st1 then
                   (if written st1 > threshold
                    then st1\<lparr>warnings := warnings st1 + 1, warned := True\<rparr>
                    else st1)
                 else st1)
      in case writeFull (fd st2) data of
           (None, fd') \<Rightarrow> (None, st2\<lparr>fd := fd'\<rparr>)
         | (Some e, fd') \<Rightarrow>
             (if e = SysError then (None, st2\<lparr>fd := fd', good := True\<rparr>)
              else (Some e, st2\<lparr>fd := fd'\<rparr>)))"

text \<open>\<^verbatim>\<open>bool FdSink::good() { return _good; }\<close>\<close>

definition FdSink_good :: "'fd FdSink \<Rightarrow> bool" where
  "FdSink_good st = good st"

text \<open>
  \<^verbatim>\<open>FdSink::~FdSink() { try { flush(); } catch (...) { ignoreException(); } }\<close>
\<close>

definition FdSink_dtor :: "'fd writer \<Rightarrow> 'fd FdSink BufferedSink \<Rightarrow> 'fd FdSink BufferedSink" where
  "FdSink_dtor writeFull snk = snd (BufferedSink_flush (FdSink_write writeFull) snk)"

text \<open>A descriptor on which every write fails with an I/O error.\<close>

definition failing_writeFull :: "unit writer" where
  "failing_writeFull d data = (Some SysError, d)"

definition healthy_FdSink :: "unit FdSink" where
  "healthy_FdSink = \<lparr>fd = (), warn = False, written = 0, good = True, warned = False, warnings = 0\<rparr>"

subsection \<open>Source\<close>

text \<open>
  A computation on a source returns \<open>None\<close> when it does not return, and otherwise the
  value or the exception together with the state the source is left in.
\<close>

type_synonym ('s, 'a) io = "((error + 'a) \<times> 's) option"

text \<open>
  The virtual \<^verbatim>\<open>size_t read(unsigned char * data, size_t len)\<close> of \<^verbatim>\<open>Source\<close>: a reader takes
  the state and \<^verbatim>\<open>len\<close> and returns the bytes it stored at \<^verbatim>\<open>data\<close>; their number is the
  \<^verbatim>\<open>size_t\<close> it returns. A reader stores at most \<^verbatim>\<open>len\<close> bytes.
\<close>

type_synonym 's reader = "'s \<Rightarrow> nat \<Rightarrow> ('s, byte list) io"

text \<open>
  \<^verbatim>\<open>
  void Source::operator () (unsigned char * data, size_t len)
  {
      while (len) {
          size_t n = read(data, len);
          data += n; len -= n;
      }
  }
  \<close>
  \<open>got\<close> is what has been stored below \<^verbatim>\<open>data\<close> so far. The loop does not end while the
  reader keeps returning no bytes.
\<close>

partial_function (option) Source_loop :: "'s reader \<Rightarrow> 's \<Rightarrow> byte list \<Rightarrow> nat \<Rightarrow> ('s, byte list) io" where
  "Source_loop rd src got len =
     (if len = 0 then Some (Inr got, src)
      else
        (case rd src len of
           None \<Rightarrow> None
         | Some (Inl e, src1) \<Rightarrow> Some (Inl e, src1)
         | Some (Inr bs, src1) \<Rightarrow> Source_loop rd src1 (got @ bs) (len - length bs)))"

definition Source_call :: "'s reader \<Rightarrow> 's \<Rightarrow> nat \<Rightarrow> ('s, byte list) io" where
  "Source_call rd src len = Source_loop rd src [] len"

subsection \<open>BufferedSource\<close>

text \<open>
  The fields of \<^verbatim>\<open>BufferedSource\<close>: \<^verbatim>\<open>bufSize\<close>, \<^verbatim>\<open>bufPosIn\<close>, \<^verbatim>\<open>bufPosOut\<close> and the lazily
  allocated \<^verbatim>\<open>buffer\<close>; the record is extended by the subclass. The names of the sink's
  fields are taken, so two carry the suffix \<open>_in\<close>.
\<close>

record BufferedSource =
  bufSize_in :: nat
  bufPosIn :: nat
  bufPosOut :: nat
  buffer_in :: "byte list option"

definition buffer_in_get :: "'a BufferedSource_scheme \<Rightarrow> byte list" where
  "buffer_in_get src = (case buffer_in src of None \<Rightarrow> [] | Some b \<Rightarrow> b)"

text \<open>
  \<^verbatim>\<open>
  size_t BufferedSource::read(unsigned char * data, size_t len)
  {
      if (!buffer) buffer = decltype(buffer)(new unsigned char[bufSize]);

      if (!bufPosIn) bufPosIn = readUnbuffered(buffer.get(), bufSize);

      /* Copy out the data in the buffer. */
      size_t n = len > bufPosIn - bufPosOut ? bufPosIn - bufPosOut : len;
      memcpy(data, buffer.get() + bufPosOut, n);
      bufPosOut += n;
      if (bufPosIn == bufPosOut) bufPosIn = bufPosOut = 0;
      return n;
  }
  \<close>
  The virtual \<^verbatim>\<open>readUnbuffered\<close> is a reader on the whole object. The bytes it returns are
  the ones it stored at \<^verbatim>\<open>buffer.get()\<close>: they replace the front of the buffer, and a run
  longer than the buffer would make the list longer, which is the write past the end of
  the array. \<^verbatim>\<open>bufPosOut\<close> never exceeds \<^verbatim>\<open>bufPosIn\<close>, so the subtraction does not wrap.
\<close>

definition BufferedSource_refill :: "'a BufferedSource_scheme reader \<Rightarrow> 'a BufferedSource_scheme \<Rightarrow> ('a BufferedSource_scheme, unit) io" where
  "BufferedSource_refill readUnbuffered src =
     (if bufPosIn src = 0 then
        (case readUnbuffered src (bufSize_in src) of
           None \<Rightarrow> None
         | Some (Inl e, src1) \<Rightarrow> Some (Inl e, src1)
         | Some (Inr bs, src1) \<Rightarrow>
             Some (Inr (), src1\<lparr>buffer_in := Some (buffer_store (buffer_in_get src1) 0 bs),
                                 bufPosIn := length bs\<rparr>))
      else Some (Inr (), src))"

definition BufferedSource_read :: "'a BufferedSource_scheme reader \<Rightarrow> 'a BufferedSource_scheme reader" where
  "BufferedSource_read readUnbuffered src len =
     (let src1 = (if buffer_in src = None
                  then src\<lparr>buffer_in := Some (replicate (bufSize_in src) 0)\<rparr> else src)
      in case BufferedSource_refill readUnbuffered src1 of
           None \<Rightarrow> None
         | Some (Inl e, src2) \<Rightarrow> Some (Inl e, src2)
         | Some (Inr u, src2) \<Rightarrow>
             let n = (if len > bufPosIn src2 - bufPosOut src2
                      then bufPosIn src2 - bufPosOut src2 else len);
                 out = take n (drop (bufPosOut src2) (buffer_in_get src2));
                 src3 = src2\<lparr>bufPosOut := bufPosOut src2 + n\<rparr>
             in Some (Inr out,
                      if bufPosIn src3 = bufPosOut src3
                      then src3\<lparr>bufPosIn := 0, bufPosOut := 0\<rparr> else src3))"

text \<open>\<^verbatim>\<open>bool BufferedSource::hasData() { return bufPosOut < bufPosIn; }\<close>\<close>

definition hasData :: "'a BufferedSource_scheme \<Rightarrow> bool" where
  "hasData src = (bufPosOut src < bufPosIn src)"

subsection \<open>FdSource\<close>

text \<open>
  \<^verbatim>\<open>FdSource\<close> adds the descriptor \<^verbatim>\<open>fd\<close>, the counter \<^verbatim>\<open>read\<close> and \<^verbatim>\<open>_good\<close> (suffixed
  where the sink has the name).
\<close>

record 'fd FdSource = BufferedSource +
  fd_in :: 'fd
  read :: nat
  good_in :: bool

text \<open>
  What one call of the system's \<^verbatim>\<open>::read(fd, data, count)\<close> does: it stores bytes at
  \<^verbatim>\<open>data\<close> and returns their number, or returns -1 with \<^verbatim>\<open>errno == EINTR\<close>, or returns
  -1 with another \<^verbatim>\<open>errno\<close>. The system call takes the descriptor and \<^verbatim>\<open>count\<close> and
  returns this and the descriptor afterwards.
\<close>

datatype read_result = ReadBytes "byte list" | ReadEINTR | ReadFailed

type_synonym 'fd sys_read = "'fd \<Rightarrow> nat \<Rightarrow> read_result \<times> 'fd"

text \<open>
  \<^verbatim>\<open>
  size_t FdSource::readUnbuffered(unsigned char * data, size_t len)
  {
      ssize_t n;
      do {
          checkInterrupt();
          n = ::read(fd, (char *) data, bufSize);
      } while (n == -1 && errno == EINTR);
      if (n == -1) { _good = false; throw SysError("reading from file"); }
      if (n == 0) { _good = false; throw EndOfFile("unexpected end-of-file"); }
      read += n;
      return n;
  }
  \<close>
  \<^verbatim>\<open>checkInterrupt\<close> is defined in util.cc; here it is a parameter that tells whether the
  hook throws \<^verbatim>\<open>Interrupted\<close>. Nothing precedes the loop, so another round of it is the
  function again on the descriptor as the interrupted call left it. The loop does not end
  while the system call keeps being interrupted.
\<close>

partial_function (option) FdSource_readUnbuffered :: "('fd \<Rightarrow> bool) \<Rightarrow> 'fd sys_read \<Rightarrow> ('fd, 'a) FdSource_scheme \<Rightarrow> nat \<Rightarrow> (('fd, 'a) FdSource_scheme, byte list) io" where
  "FdSource_readUnbuffered checkInterrupt sys_read src len =
     (if checkInterrupt (fd_in src) then Some (Inl Interrupted, src)
      else
        (case sys_read (fd_in src) (bufSize_in src) of
           (ReadEINTR, d1) \<Rightarrow>
             FdSource_readUnbuffered checkInterrupt sys_read (src\<lparr>fd_in := d1\<rparr>) len
         | (ReadFailed, d1) \<Rightarrow> Some (Inl SysError, src\<lparr>fd_in := d1, good_in := False\<rparr>)
         | (ReadBytes bs, d1) \<Rightarrow>
             (if length bs = 0 then Some (Inl EndOfFile, src\<lparr>fd_in := d1, good_in := False\<rparr>)
              else Some (Inr bs, src\<lparr>fd_in := d1, read := read src + length bs\<rparr>))))"

text \<open>\<^verbatim>\<open>bool FdSource::good() { return _good; }\<close>\<close>

definition FdSource_good :: "('fd, 'a) FdSource_scheme \<Rightarrow> bool" where
  "FdSource_good src = good_in src"

subsection \<open>StringSource\<close>

record StringSource =
  s :: "byte list"
  pos :: nat

text \<open>
  \<^verbatim>\<open>
  size_t StringSource::read(unsigned char * data, size_t len)
  {
      if (pos == s.size()) throw EndOfFile("end of string reached");
      size_t n = s.copy((char *) data, len, pos);
      pos += n;
      return n;
  }
  \<close>
  \<^verbatim>\<open>s.copy\<close> copies \<open>min len (size - pos)\<close> characters from \<^verbatim>\<open>pos\<close> on, and throws
  \<^verbatim>\<open>std::out_of_range\<close> when \<^verbatim>\<open>pos\<close> is beyond the size.
\<close>

definition StringSource_read :: "StringSource reader" where
  "StringSource_read src len =
     (if pos src = length (s src) then Some (Inl EndOfFile, src)
      else if pos src > length (s src) then Some (Inl OutOfRange, src)
      else
        let bs = take len (drop (pos src) (s src))
        in Some (Inr bs, src\<lparr>pos := pos src + length bs\<rparr>))"

subsection \<open>StringSink\<close>

text \<open>
  The byte string \<^verbatim>\<open>s\<close> the sink appends to, with the function-level \<^verbatim>\<open>static bool warned\<close>
  and the number of messages printed.
\<close>

record StringSink =
  str :: "byte list"
  warned_str :: bool
  warnings_str :: nat

text \<open>
  \<^verbatim>\<open>
  void StringSink::operator () (const unsigned char * data, size_t len)
  {
      static bool warned = false;
      if (!warned && s->size() > threshold) {
          warnLargeDump();
          warned = true;
      }
      s->append((const char *) data, len);
  }
  \<close>
\<close>

definition StringSink_call :: "StringSink writer" where
  "StringSink_call snk data =
     (let snk1 = (if \<not> warned_str snk \<and> length (str snk) > threshold
                  then snk\<lparr>warnings_str := warnings_str snk + 1, warned_str := True\<rparr>
                  else snk)
      in (None, snk1\<lparr>str := str snk1 @ data\<rparr>))"

subsection \<open>Encoding\<close>

text \<open>
  Modelled from the spec: the integer writer \<^verbatim>\<open>sink << n\<close> is declared in serialise.hh,
  which is not among the sources. The spec: it emits 8 bytes, little-endian, of the 64-bit
  representation of \<open>n\<close>, always all 8 bytes; \<open>int_bytes\<close> is that run of bytes, and
  \<open>writeInt\<close> pushes it to the sink. A sink's \<^verbatim>\<open>operator ()\<close> has the shape of a writer.
\<close>

definition int_bytes :: "64 word \<Rightarrow> byte list" where
  "int_bytes n = map (\<lambda>i. ucast (drop_bit (8 * i) n)) [0..<8]"

definition writeInt :: "'k writer \<Rightarrow> 64 word \<Rightarrow> 'k \<Rightarrow> error option \<times> 'k" where
  "writeInt put n snk = put snk (int_bytes n)"

text \<open>
  \<^verbatim>\<open>
  void writePadding(size_t len, Sink & sink)
  {
      if (len % 8) {
          unsigned char zero[8];
          memset(zero, 0, sizeof(zero));
          sink(zero, 8 - (len % 8));
      }
  }
  \<close>
\<close>

definition writePadding :: "'k writer \<Rightarrow> nat \<Rightarrow> 'k \<Rightarrow> error option \<times> 'k" where
  "writePadding put len snk =
     (if len mod 8 \<noteq> 0 then put snk (take (8 - len mod 8) (replicate 8 0))
      else (None, snk))"

text \<open>
  \<^verbatim>\<open>
  void writeString(const unsigned char * buf, size_t len, Sink & sink)
  {
      sink << len;
      sink(buf, len);
      writePadding(len, sink);
  }
  \<close>
  \<^verbatim>\<open>len\<close> is the length of the run \<^verbatim>\<open>buf\<close>; as a \<^verbatim>\<open>size_t\<close> it is written as a 64-bit value.
\<close>

definition writeString :: "'k writer \<Rightarrow> byte list \<Rightarrow> 'k \<Rightarrow> error option \<times> 'k" where
  "writeString put buf snk =
     (case writeInt put (of_nat (length buf)) snk of
        (Some e, snk1) \<Rightarrow> (Some e, snk1)
      | (None, snk1) \<Rightarrow>
          (case put snk1 buf of
             (Some e, snk2) \<Rightarrow> (Some e, snk2)
           | (None, snk2) \<Rightarrow> writePadding put (length buf) snk2))"

subsection \<open>Decoding\<close>

text \<open>
  \<^verbatim>\<open>
  void readPadding(size_t len, Source & source)
  {
      if (len % 8) {
          unsigned char zero[8];
          size_t n = 8 - (len % 8);
          source(zero, n);
          for (unsigned int i = 0; i < n; i++)
              if (zero[i]) throw SerialisationError("non-zero padding");
      }
  }
  \<close>
\<close>

definition readPadding :: "'s reader \<Rightarrow> nat \<Rightarrow> 's \<Rightarrow> ('s, unit) io" where
  "readPadding rd len src =
     (if len mod 8 \<noteq> 0 then
        (let n = 8 - len mod 8
         in case Source_call rd src n of
              None \<Rightarrow> None
            | Some (Inl e, src1) \<Rightarrow> Some (Inl e, src1)
            | Some (Inr zero, src1) \<Rightarrow>
                (if list_ex (\<lambda>i. zero ! i \<noteq> 0) [0..<n] then Some (Inl SerialisationError, src1)
                 else Some (Inr (), src1)))
      else Some (Inr (), src))"

text \<open>
  \<^verbatim>\<open>
  unsigned int readInt(Source & source)
  {
      unsigned char buf[8];
      source(buf, sizeof(buf));
      if (buf[4] || buf[5] || buf[6] || buf[7])
          throw SerialisationError("implementation cannot deal with > 32-bit integers");
      return
          buf[0] |
          (buf[1] << 8) |
          (buf[2] << 16) |
          (buf[3] << 24);
  }
  \<close>
  The bytes are promoted before they are shifted and the result is converted to
  \<^verbatim>\<open>unsigned int\<close>: the value is the 32-bit word with these bits.
\<close>

definition readInt :: "'s reader \<Rightarrow> 's \<Rightarrow> ('s, 32 word) io" where
  "readInt rd src =
     (case Source_call rd src 8 of
        None \<Rightarrow> None
      | Some (Inl e, src1) \<Rightarrow> Some (Inl e, src1)
      | Some (Inr buf, src1) \<Rightarrow>
          (if buf ! 4 \<noteq> 0 \<or> buf ! 5 \<noteq> 0 \<or> buf ! 6 \<noteq> 0 \<or> buf ! 7 \<noteq> 0
           then Some (Inl SerialisationError, src1)
           else Some (Inr (ucast (buf ! 0) OR push_bit 8 (ucast (buf ! 1))
                           OR push_bit 16 (ucast (buf ! 2)) OR push_bit 24 (ucast (buf ! 3))),
                      src1)))"

text \<open>
  \<^verbatim>\<open>
  unsigned long long readLongLong(Source & source)
  {
      unsigned char buf[8];
      source(buf, sizeof(buf));
      return
          ((unsigned long long) buf[0]) |
          ((unsigned long long) buf[1] << 8) |
          ...
          ((unsigned long long) buf[7] << 56);
  }
  \<close>
\<close>

definition readLongLong :: "'s reader \<Rightarrow> 's \<Rightarrow> ('s, 64 word) io" where
  "readLongLong rd src =
     (case Source_call rd src 8 of
        None \<Rightarrow> None
      | Some (Inl e, src1) \<Rightarrow> Some (Inl e, src1)
      | Some (Inr buf, src1) \<Rightarrow>
          Some (Inr (ucast (buf ! 0) OR push_bit 8 (ucast (buf ! 1))
                     OR push_bit 16 (ucast (buf ! 2)) OR push_bit 24 (ucast (buf ! 3))
                     OR push_bit 32 (ucast (buf ! 4)) OR push_bit 40 (ucast (buf ! 5))
                     OR push_bit 48 (ucast (buf ! 6)) OR push_bit 56 (ucast (buf ! 7))),
                src1))"

text \<open>
  The bounded reader; the value is the run stored at \<^verbatim>\<open>buf\<close>, whose length is the \<^verbatim>\<open>len\<close>
  returned. \<open>maxlen\<close> is the parameter \<^verbatim>\<open>max\<close>.
  \<^verbatim>\<open>
  size_t readString(unsigned char * buf, size_t max, Source & source)
  {
      size_t len = readInt(source);
      if (len > max) throw Error("string is too long");
      source(buf, len);
      readPadding(len, source);
      return len;
  }
  \<close>
\<close>

definition readString_max :: "'s reader \<Rightarrow> nat \<Rightarrow> 's \<Rightarrow> ('s, byte list) io" where
  "readString_max rd maxlen src =
     (case readInt rd src of
        None \<Rightarrow> None
      | Some (Inl e, src1) \<Rightarrow> Some (Inl e, src1)
      | Some (Inr w, src1) \<Rightarrow>
          (let len = unat w
           in if len > maxlen then Some (Inl Error, src1)
              else
                (case Source_call rd src1 len of
                   None \<Rightarrow> None
                 | Some (Inl e, src2) \<Rightarrow> Some (Inl e, src2)
                 | Some (Inr buf, src2) \<Rightarrow>
                     (case readPadding rd len src2 of
                        None \<Rightarrow> None
                      | Some (Inl e, src3) \<Rightarrow> Some (Inl e, src3)
                      | Some (Inr u, src3) \<Rightarrow> Some (Inr buf, src3)))))"

text \<open>
  The unbounded reader. Beside the source it returns the sizes of the arrays it allocated
  with \<^verbatim>\<open>new\<close>, in order; the allocation itself is taken to succeed.
  \<^verbatim>\<open>
  string readString(Source & source)
  {
      size_t len = readInt(source);
      unsigned char * buf = new unsigned char[len];
      AutoDeleteArray<unsigned char> d(buf);
      source(buf, len);
      readPadding(len, source);
      return string((char *) buf, len);
  }
  \<close>
\<close>

definition readString :: "'s reader \<Rightarrow> 's \<Rightarrow> ('s \<times> nat list, byte list) io" where
  "readString rd src =
     (case readInt rd src of
        None \<Rightarrow> None
      | Some (Inl e, src1) \<Rightarrow> Some (Inl e, src1, [])
      | Some (Inr w, src1) \<Rightarrow>
          (let len = unat w
           in case Source_call rd src1 len of
                None \<Rightarrow> None
              | Some (Inl e, src2) \<Rightarrow> Some (Inl e, src2, [len])
              | Some (Inr buf, src2) \<Rightarrow>
                  (case readPadding rd len src2 of
                     None \<Rightarrow> None
                   | Some (Inl e, src3) \<Rightarrow> Some (Inl e, src3, [len])
                   | Some (Inr u, src3) \<Rightarrow> Some (Inr (take len buf), src3, [len]))))"

text \<open>
  The loop of \<^verbatim>\<open>readStrings\<close>, \<^verbatim>\<open>while (count--) ss.insert(ss.end(), readString(source));\<close>,
  for a container with the insertion \<open>ins\<close>; \<open>al\<close> are the allocations made so far.
\<close>

fun readStrings_loop :: "'s reader \<Rightarrow> ('c \<Rightarrow> byte list \<Rightarrow> 'c) \<Rightarrow> nat \<Rightarrow> 'c \<Rightarrow> 's \<Rightarrow> nat list \<Rightarrow> ('s \<times> nat list, 'c) io" where
  "readStrings_loop rd ins 0 ss src al = Some (Inr ss, src, al)"
| "readStrings_loop rd ins (Suc count) ss src al =
     (case readString rd src of
        None \<Rightarrow> None
      | Some (Inl e, src1, al1) \<Rightarrow> Some (Inl e, src1, al @ al1)
      | Some (Inr x, src1, al1) \<Rightarrow> readStrings_loop rd ins count (ins ss x) src1 (al @ al1))"

text \<open>
  \<^verbatim>\<open>
  template<class T> T readStrings(Source & source)
  {
      unsigned int count = readInt(source);
      T ss;
      while (count--)
          ss.insert(ss.end(), readString(source));
      return ss;
  }
  template Paths readStrings(Source & source);
  template PathSet readStrings(Source & source);
  \<close>
  \<open>ss0\<close> is the empty container \<^verbatim>\<open>T ss\<close>. \<^verbatim>\<open>Paths\<close> is a list of strings, \<^verbatim>\<open>PathSet\<close> a set.
\<close>

definition readStrings :: "'s reader \<Rightarrow> 'c \<Rightarrow> ('c \<Rightarrow> byte list \<Rightarrow> 'c) \<Rightarrow> 's \<Rightarrow> ('s \<times> nat list, 'c) io" where
  "readStrings rd ss0 ins src =
     (case readInt rd src of
        None \<Rightarrow> None
      | Some (Inl e, src1) \<Rightarrow> Some (Inl e, src1, [])
      | Some (Inr w, src1) \<Rightarrow> readStrings_loop rd ins (unat w) ss0 src1 [])"

definition readStrings_Paths :: "'s reader \<Rightarrow> 's \<Rightarrow> ('s \<times> nat list, byte list list) io" where
  "readStrings_Paths rd src = readStrings rd [] (\<lambda>ss x. ss @ [x]) src"

definition readStrings_PathSet :: "'s reader \<Rightarrow> 's \<Rightarrow> ('s \<times> nat list, byte list set) io" where
  "readStrings_PathSet rd src = readStrings rd {} (\<lambda>ss x. insert x ss) src"

subsection \<open>Test harness for the sink\<close>

text \<open>
  A backend whose \<^verbatim>\<open>write\<close> records every byte it is handed, in order; its state is the
  byte sequence received so far.
\<close>

definition recording_write :: "byte list writer" where
  "recording_write received data = (None, received @ data)"

text \<open>A backend that takes the bytes and then fails with an I/O error.\<close>

definition failing_write :: "byte list writer" where
  "failing_write received data = (Some SysError, received @ data)"

text \<open>A sequence of push calls, one per run; an exception ends the sequence.\<close>

fun push_all :: "'w writer \<Rightarrow> 'w BufferedSink \<Rightarrow> byte list list \<Rightarrow> error option \<times> 'w BufferedSink" where
  "push_all wr snk [] = (None, snk)"
| "push_all wr snk (run # runs) =
     (case BufferedSink_call wr snk run of
        (Some e, snk1) \<Rightarrow> (Some e, snk1)
      | (None, snk1) \<Rightarrow> push_all wr snk1 runs)"

definition push_all_then_flush :: "'w writer \<Rightarrow> 'w BufferedSink \<Rightarrow> byte list list \<Rightarrow> error option \<times> 'w BufferedSink" where
  "push_all_then_flush wr snk runs =
     (case push_all wr snk runs of
        (Some e, snk1) \<Rightarrow> (Some e, snk1)
      | (None, snk1) \<Rightarrow> BufferedSink_flush wr snk1)"

text \<open>The bytes copied into the buffer and not yet handed to the backend.\<close>

definition pending :: "'w BufferedSink \<Rightarrow> byte list" where
  "pending snk = take (bufPos snk) (buffer_get snk)"

text \<open>A sink as constructed: cursor zero, no buffer yet.\<close>

definition fresh_sink :: "nat \<Rightarrow> byte list BufferedSink" where
  "fresh_sink n = \<lparr>bufSize = n, bufPos = 0, buffer = None, derived = []\<rparr>"

text \<open>A sink of capacity 4 holding the two bytes 7, 8.\<close>

definition pending_sink :: "byte list BufferedSink" where
  "pending_sink = \<lparr>bufSize = 4, bufPos = 2, buffer = Some [7, 8, 0, 0], derived = []\<rparr>"

subsection \<open>Encodings and streams for the codec\<close>

text \<open>A memory sink as constructed over an empty string, and a memory source at the start
  of a byte string.\<close>

definition empty_StringSink :: StringSink where
  "empty_StringSink = \<lparr>str = [], warned_str = False, warnings_str = 0\<rparr>"

definition StringSource_on :: "byte list \<Rightarrow> StringSource" where
  "StringSource_on bs = \<lparr>s = bs, pos = 0\<rparr>"

text \<open>The encoding of an integer and of a string: what an empty memory sink holds after
  \<open>writeInt\<close> and after \<open>writeString\<close>.\<close>

definition encodeInt :: "64 word \<Rightarrow> byte list" where
  "encodeInt u = str (snd (writeInt StringSink_call u empty_StringSink))"

definition encodeString :: "byte list \<Rightarrow> byte list" where
  "encodeString b = str (snd (writeString StringSink_call b empty_StringSink))"

text \<open>The number of padding bytes as the specification of the wire format gives it:
  \<^verbatim>\<open>padding(n) = (8 - n%8) % 8\<close>.\<close>

definition padding :: "nat \<Rightarrow> nat" where
  "padding n = (8 - n mod 8) mod 8"

text \<open>A string of 4 GiB, the shortest whose length does not fit in 32 bits.\<close>

definition four_GiB :: "byte list" where
  "four_GiB = replicate (2 ^ 32) 0"


text \<open>A stream whose count field is \<open>2 ^ 32\<close>, followed by eight more bytes.\<close>

definition wide_count_stream :: "byte list" where
  "wide_count_stream = [0, 0, 0, 0, 1, 0, 0, 0, 97, 0, 0, 0, 0, 0, 0, 0]"

text \<open>The encoding of the nine bytes 1 .. 9.\<close>

definition long_field_stream :: "byte list" where
  "long_field_stream = [9, 0, 0, 0, 0, 0, 0, 0, 1, 2, 3, 4, 5, 6, 7, 8, 9, 0, 0, 0, 0, 0, 0, 0]"



subsection \<open>Descriptors for the descriptor source\<close>

text \<open>
  The descriptor after \<open>k\<close> rounds of the retry loop in each of which no interrupt is
  pending and the system call is interrupted; \<open>None\<close> if a round goes differently.
\<close>

fun after_EINTR :: "('fd \<Rightarrow> bool) \<Rightarrow> 'fd sys_read \<Rightarrow> nat \<Rightarrow> nat \<Rightarrow> 'fd \<Rightarrow> 'fd option" where
  "after_EINTR checkInterrupt sys_read count 0 d = Some d"
| "after_EINTR checkInterrupt sys_read count (Suc k) d =
     (if checkInterrupt d then None
      else
        (case sys_read d count of
           (ReadEINTR, d1) \<Rightarrow> after_EINTR checkInterrupt sys_read count k d1
         | (ReadFailed, d1) \<Rightarrow> None
         | (ReadBytes bs, d1) \<Rightarrow> None))"

text \<open>
  A descriptor that plays a script: each system call takes the next scripted result, of a
  run of bytes at most \<open>count\<close> and the others at the next call; at the end of the script
  it reports zero bytes.
\<close>

definition scripted_read :: "read_result list sys_read" where
  "scripted_read script count =
     (case script of
        [] \<Rightarrow> (ReadBytes [], [])
      | ReadBytes bs # rest \<Rightarrow>
          (ReadBytes (take count bs),
           if length bs > count then ReadBytes (drop count bs) # rest else rest)
      | ReadEINTR # rest \<Rightarrow> (ReadEINTR, rest)
      | ReadFailed # rest \<Rightarrow> (ReadFailed, rest))"

text \<open>No interrupt is ever pending.\<close>

definition never_interrupted :: "'fd \<Rightarrow> bool" where
  "never_interrupted d = False"

text \<open>A descriptor source as constructed: both cursors zero, no buffer yet, healthy.\<close>

definition fresh_FdSource :: "nat \<Rightarrow> 'fd \<Rightarrow> 'fd FdSource" where
  "fresh_FdSource n d =
     \<lparr>bufSize_in = n, bufPosIn = 0, bufPosOut = 0, buffer_in = None,
      fd_in = d, read = 0, good_in = True\<rparr>"

text \<open>The contract of the system call: it stores at most \<open>count\<close> bytes.\<close>

definition sys_read_bounded :: "'fd sys_read \<Rightarrow> bool" where
  "sys_read_bounded rd = (\<forall>d count bs d1. rd d count = (ReadBytes bs, d1) \<longrightarrow> length bs \<le> count)"

text \<open>
  What a return of \<^verbatim>\<open>readUnbuffered\<close> on the object \<open>src\<close> stores: at least one byte and at
  most \<^verbatim>\<open>bufSize\<close>, with the fields of the buffer untouched.
\<close>

definition stored_in_bounds :: "('fd, 'a) FdSource_scheme \<Rightarrow> (error + byte list) \<times> ('fd, 'a) FdSource_scheme \<Rightarrow> bool" where
  "stored_in_bounds src y =
     (case y of
        (Inl e, src') \<Rightarrow> True
      | (Inr bs, src') \<Rightarrow>
          0 < length bs \<and> length bs \<le> bufSize_in src
          \<and> bufSize_in src' = bufSize_in src \<and> buffer_in src' = buffer_in src
          \<and> bufPosIn src' = bufPosIn src \<and> bufPosOut src' = bufPosOut src)"

section \<open>Properties\<close>

subsection \<open>The descriptor sink\<close>

text \<open>
  C1 (as the code has it). When \<^verbatim>\<open>writeFull\<close> throws \<^verbatim>\<open>SysError\<close> inside \<^verbatim>\<open>FdSink::write\<close>, the
  call returns normally, but the handler assigns \<^verbatim>\<open>true\<close> to \<^verbatim>\<open>_good\<close>: on a healthy sink
  whose descriptor fails, \<^verbatim>\<open>good()\<close> still answers true after the failed write, also when
  the write is reached through a push of three bytes on a buffer of two.
\<close>

theorem FdSink_write_failure_keeps_good:
  "FdSink_write failing_writeFull healthy_FdSink [1, 2, 3] =
     (None, healthy_FdSink\<lparr>written := 3\<rparr>)
   \<and> FdSink_good (snd (FdSink_write failing_writeFull healthy_FdSink [1, 2, 3])) = True
   \<and> BufferedSink_call (FdSink_write failing_writeFull)
        \<lparr>bufSize = 2, bufPos = 0, buffer = None, derived = healthy_FdSink\<rparr> [1, 2, 3]
      = (None, \<lparr>bufSize = 2, bufPos = 0, buffer = Some [0, 0],
                derived = healthy_FdSink\<lparr>written := 3\<rparr>\<rparr>)"
  by (simp add: FdSink_write_def FdSink_good_def failing_writeFull_def healthy_FdSink_def
      BufferedSink_call_def BufferedSink_flush_def numeral_2_eq_2)

subsection \<open>The buffered sink\<close>

lemma flush_recording:
  "BufferedSink_flush recording_write snk =
     (None, snk\<lparr>bufPos := 0, derived := derived snk @ pending snk\<rparr>)"
  by (simp add: BufferedSink_flush_def recording_write_def pending_def buffer_get_def Let_def)

text \<open>
  One run through the loop: the bytes received by the backend followed by the pending
  bytes grow by exactly the run, and the cursor stays inside the buffer.
\<close>

lemma loop_recording:
  assumes "bufPos snk \<le> length (buffer_get snk)"
  shows "\<exists>snk'. BufferedSink_loop recording_write snk data = (None, snk')
          \<and> derived snk' @ pending snk' = derived snk @ pending snk @ data
          \<and> bufPos snk' \<le> length (buffer_get snk') \<and> bufSize snk' = bufSize snk"
proof (cases "length data = 0")
  case True
  then show ?thesis using assms by simp
next
  case False
  show ?thesis
  proof (cases "bufPos snk + length data \<ge> bufSize snk")
    case True
    then show ?thesis using False assms
      by (simp add: flush_recording recording_write_def pending_def buffer_get_def)
  next
    case fits: False
    then show ?thesis using False assms
      apply (subst BufferedSink_loop.simps)
      apply (simp add: Let_def pending_def buffer_get_def buffer_store_def)
      done
  qed
qed

lemma call_recording:
  assumes "bufPos snk \<le> length (buffer_get snk)"
  shows "\<exists>snk'. BufferedSink_call recording_write snk data = (None, snk')
          \<and> derived snk' @ pending snk' = derived snk @ pending snk @ data
          \<and> bufPos snk' \<le> length (buffer_get snk') \<and> bufSize snk' = bufSize snk"
proof (cases "buffer snk")
  case None
  let ?s = "snk\<lparr>buffer := Some (replicate (bufSize snk) 0)\<rparr>"
  from None assms have z: "bufPos snk = 0" by (simp add: buffer_get_def)
  then have "bufPos ?s \<le> length (buffer_get ?s)" by simp
  from loop_recording [OF this, of data] z None show ?thesis
    by (simp add: BufferedSink_call_def pending_def)
next
  case (Some b)
  with loop_recording [OF assms, of data] show ?thesis
    by (simp add: BufferedSink_call_def)
qed

lemma push_all_recording:
  "bufPos snk \<le> length (buffer_get snk) \<Longrightarrow>
   \<exists>snk'. push_all recording_write snk runs = (None, snk')
          \<and> derived snk' @ pending snk' = derived snk @ pending snk @ concat runs
          \<and> bufPos snk' \<le> length (buffer_get snk') \<and> bufSize snk' = bufSize snk"
proof (induction runs arbitrary: snk)
  case Nil
  then show ?case by simp
next
  case (Cons run runs)
  from call_recording [OF Cons.prems, of run] obtain s1 where
    s1: "BufferedSink_call recording_write snk run = (None, s1)"
      "derived s1 @ pending s1 = derived snk @ pending snk @ run"
      "bufPos s1 \<le> length (buffer_get s1)" "bufSize s1 = bufSize snk"
    by blast
  from Cons.IH [OF s1(3)] obtain s2 where
    s2: "push_all recording_write s1 runs = (None, s2)"
      "derived s2 @ pending s2 = derived s1 @ pending s1 @ concat runs"
      "bufPos s2 \<le> length (buffer_get s2)" "bufSize s2 = bufSize s1"
    by blast
  from s1 s2 show ?case by simp
qed

text \<open>
  C6. For every sequence of push calls, with runs of any length, on a sink whose cursor
  lies inside its buffer (a freshly constructed sink in particular, whose cursor is zero),
  every call returns normally and, after a final flush, the recording backend has received
  what it had before, then the bytes that were pending, then the concatenation of all
  pushed runs in order; the cursor is zero.
\<close>

theorem BufferedSink_chunking_transparent:
  assumes "bufPos snk \<le> length (buffer_get snk)"
  shows "fst (push_all_then_flush recording_write snk runs) = None
       \<and> derived (snd (push_all_then_flush recording_write snk runs))
           = derived snk @ take (bufPos snk) (buffer_get snk) @ concat runs
       \<and> bufPos (snd (push_all_then_flush recording_write snk runs)) = 0"
proof -
  from push_all_recording [OF assms, of runs] obtain s1 where
    s1: "push_all recording_write snk runs = (None, s1)"
      "derived s1 @ pending s1 = derived snk @ pending snk @ concat runs"
    by blast
  then show ?thesis
    by (simp add: push_all_then_flush_def flush_recording pending_def)
qed

text \<open>
  A sink of capacity 4 and the runs 1 2, 3, 4 5 6, 7 .. 11, the empty run, 12: the third
  run straddles the end of the buffer, the fourth is larger than the buffer.
\<close>

theorem BufferedSink_chunking_transparent_witness:
  "bufPos (fresh_sink 4) \<le> length (buffer_get (fresh_sink 4))
   \<and> push_all_then_flush recording_write (fresh_sink 4)
         [[1, 2], [3], [4, 5, 6], [7, 8, 9, 10, 11], [], [12]]
       = (None, \<lparr>bufSize = 4, bufPos = 0, buffer = Some [12, 2, 3, 0],
                 derived = [1, 2, 3, 4, 5, 6, 7, 8, 9, 10, 11, 12]\<rparr>)"
proof -
  have h: "bufPos (fresh_sink 4) \<le> length (buffer_get (fresh_sink 4))"
    by (simp add: fresh_sink_def)
  have e: "push_all_then_flush recording_write (fresh_sink 4)
         [[1, 2], [3], [4, 5, 6], [7, 8, 9, 10, 11], [], [12]]
       = (None, \<lparr>bufSize = 4, bufPos = 0, buffer = Some [12, 2, 3, 0],
                 derived = [1, 2, 3, 4, 5, 6, 7, 8, 9, 10, 11, 12]\<rparr>)"
    by (simp add: push_all_then_flush_def BufferedSink_call_def BufferedSink_flush_def
        recording_write_def fresh_sink_def buffer_get_def buffer_store_def Let_def)
  from BufferedSink_chunking_transparent
         [OF h, of "[[1, 2], [3], [4, 5, 6], [7, 8, 9, 10, 11], [], [12]]"] h e
  show ?thesis by simp
qed

text \<open>
  C8. \<^verbatim>\<open>flush\<close> with a zero cursor returns at once and leaves the sink as it is. With a
  nonzero cursor it hands the first \<^verbatim>\<open>bufPos\<close> bytes of the buffer to the backend write, and
  the sink it leaves has cursor zero whatever the backend write does, an exception
  included. Hence a flush that follows (with any backend write), the one of the destructor
  \<^verbatim>\<open>~FdSink\<close> among them, returns at once and hands nothing to the backend.
\<close>

theorem BufferedSink_flush_resets_cursor:
  "(bufPos snk = 0 \<longrightarrow> BufferedSink_flush wr snk = (None, snk))
   \<and> (bufPos snk \<noteq> 0 \<longrightarrow>
        BufferedSink_flush wr snk =
          (fst (wr (derived snk) (take (bufPos snk) (buffer_get snk))),
           snk\<lparr>bufPos := 0,
               derived := snd (wr (derived snk) (take (bufPos snk) (buffer_get snk)))\<rparr>))
   \<and> bufPos (snd (BufferedSink_flush wr snk)) = 0
   \<and> BufferedSink_flush wr' (snd (BufferedSink_flush wr snk))
       = (None, snd (BufferedSink_flush wr snk))
   \<and> FdSink_dtor writeFull (snd (BufferedSink_flush wr2 fsnk)) = snd (BufferedSink_flush wr2 fsnk)"
  by (simp add: BufferedSink_flush_def FdSink_dtor_def buffer_get_def Let_def split: prod.splits)

text \<open>
  The backend fails on the two pending bytes: the cursor is zero afterwards and the second
  flush does not hand them over again.
\<close>

theorem BufferedSink_flush_resets_cursor_witness:
  "bufPos pending_sink \<noteq> 0
   \<and> BufferedSink_flush failing_write pending_sink =
       (Some SysError,
        \<lparr>bufSize = 4, bufPos = 0, buffer = Some [7, 8, 0, 0], derived = [7, 8]\<rparr>)
   \<and> BufferedSink_flush failing_write (snd (BufferedSink_flush failing_write pending_sink)) =
       (None, \<lparr>bufSize = 4, bufPos = 0, buffer = Some [7, 8, 0, 0], derived = [7, 8]\<rparr>)"
  using BufferedSink_flush_resets_cursor [of pending_sink failing_write failing_write]
  by (simp add: pending_sink_def failing_write_def buffer_get_def BufferedSink_flush_def)

subsection \<open>The bytes of an integer\<close>

lemma int_bytes_nth: "i < 8 \<Longrightarrow> int_bytes n ! i = ucast (drop_bit (8 * i) n)"
  by (simp add: int_bytes_def)

lemma length_int_bytes: "length (int_bytes n) = 8"
  by (simp add: int_bytes_def)

lemma byte_zero_iff:
  "(ucast (drop_bit k (n :: 64 word)) :: 8 word) = 0 \<longleftrightarrow> (\<forall>i<8. \<not> bit n (k + i))"
  by (auto simp add: bit_eq_iff bit_simps)

lemma unat_less_iff_drop_bit: "unat (n :: 64 word) < 2 ^ 32 \<longleftrightarrow> drop_bit 32 n = 0"
proof -
  have "unat n < 2 ^ 32 \<longleftrightarrow> take_bit 32 (unat n) = unat n"
    by (simp add: take_bit_nat_eq_self_iff)
  also have "\<dots> \<longleftrightarrow> drop_bit 32 (unat n) = 0"
    by (rule take_bit_eq_self_iff_drop_bit_eq_0)
  also have "\<dots> \<longleftrightarrow> unat (drop_bit 32 n) = 0"
    by (simp add: unat_drop_bit_eq)
  also have "\<dots> \<longleftrightarrow> drop_bit 32 n = 0"
    by (simp add: unsigned_eq_0_iff)
  finally show ?thesis .
qed

lemma drop_bit_32_zero_iff:
  "drop_bit 32 (n :: 64 word) = 0 \<longleftrightarrow> (\<forall>j<32. \<not> bit n (32 + j))"
proof
  assume z: "drop_bit 32 n = 0"
  show "\<forall>j<32. \<not> bit n (32 + j)"
  proof (intro allI impI)
    fix j :: nat
    have "bit (drop_bit 32 n) j = bit n (32 + j)" by (simp add: bit_drop_bit_eq)
    with z show "\<not> bit n (32 + j)" by simp
  qed
next
  assume a: "\<forall>j<32. \<not> bit n (32 + j)"
  show "drop_bit 32 n = 0"
  proof (rule bit_eqI)
    fix k :: nat
    have "\<not> bit n (32 + k)"
    proof
      assume b: "bit n (32 + k)"
      then have "32 + k < 64" using bit_imp_le_length [OF b] by simp
      then have "k < 32" by simp
      with a b show False by blast
    qed
    then show "bit (drop_bit 32 n) k = bit (0 :: 64 word) k" by (simp add: bit_drop_bit_eq)
  qed
qed

text \<open>The four high bytes are zero exactly when the value is below \<open>2 ^ 32\<close>, and the four
  low bytes put together are the low 32 bits.\<close>

lemma high_bytes_zero_iff:
  "(int_bytes n ! 4 = 0 \<and> int_bytes n ! 5 = 0 \<and> int_bytes n ! 6 = 0 \<and> int_bytes n ! 7 = 0)
   \<longleftrightarrow> unat n < 2 ^ 32"
proof -
  have "(\<forall>j<32. \<not> bit n (32 + j)) \<longleftrightarrow>
        (\<forall>i<8. \<not> bit n (32 + i)) \<and> (\<forall>i<8. \<not> bit n (40 + i))
        \<and> (\<forall>i<8. \<not> bit n (48 + i)) \<and> (\<forall>i<8. \<not> bit n (56 + i))" (is "?L \<longleftrightarrow> ?R")
  proof
    assume l: ?L
    have "\<not> bit n (32 + i)" "\<not> bit n (40 + i)" "\<not> bit n (48 + i)" "\<not> bit n (56 + i)" if "i < 8" for i
      using l [rule_format, of i] l [rule_format, of "8 + i"] l [rule_format, of "16 + i"]
        l [rule_format, of "24 + i"] that by (simp_all add: add.assoc [symmetric])
    then show ?R by blast
  next
    assume r: ?R
    then have r4: "\<not> bit n (32 + i)" and r5: "\<not> bit n (40 + i)"
      and r6: "\<not> bit n (48 + i)" and r7: "\<not> bit n (56 + i)" if "i < 8" for i
      using that by blast+
    show ?L
    proof (intro allI impI)
      fix j :: nat
      assume j: "j < 32"
      consider "j < 8" | "8 \<le> j" "j < 16" | "16 \<le> j" "j < 24" | "24 \<le> j" "j < 32"
        using j by linarith
      then show "\<not> bit n (32 + j)"
      proof cases
        case 1
        with r4 show ?thesis by blast
      next
        case 2
        with r5 [of "j - 8"] show ?thesis by simp
      next
        case 3
        with r6 [of "j - 16"] show ?thesis by simp
      next
        case 4
        with r7 [of "j - 24"] show ?thesis by simp
      qed
    qed
  qed
  moreover have "(int_bytes n ! 4 = 0 \<and> int_bytes n ! 5 = 0 \<and> int_bytes n ! 6 = 0 \<and> int_bytes n ! 7 = 0)
      \<longleftrightarrow> ?R"
    by (simp add: int_bytes_nth byte_zero_iff)
  ultimately show ?thesis
    using unat_less_iff_drop_bit [of n] drop_bit_32_zero_iff [of n] by blast
qed

lemma low_bytes_value:
  "(ucast (int_bytes n ! 0) OR push_bit 8 (ucast (int_bytes n ! 1))
      OR push_bit 16 (ucast (int_bytes n ! 2)) OR push_bit 24 (ucast (int_bytes n ! 3)) :: 32 word)
   = ucast n"
proof (rule bit_eqI)
  fix k :: nat
  let ?lhs = "ucast (int_bytes n ! 0) OR push_bit 8 (ucast (int_bytes n ! 1))
      OR push_bit 16 (ucast (int_bytes n ! 2)) OR push_bit 24 (ucast (int_bytes n ! 3)) :: 32 word"
  consider "k < 8" | "8 \<le> k" "k < 16" | "16 \<le> k" "k < 24" | "24 \<le> k" "k < 32" | "32 \<le> k"
    by linarith
  then show "bit ?lhs k = bit (ucast n :: 32 word) k"
  proof cases
    case 1
    then show ?thesis by (auto simp add: int_bytes_nth bit_simps)
  next
    case 2
    then have "k - 8 < 8" by linarith
    with 2 show ?thesis by (auto simp add: int_bytes_nth bit_simps)
  next
    case 3
    then have "k - 16 < 8" by linarith
    with 3 show ?thesis by (auto simp add: int_bytes_nth bit_simps)
  next
    case 4
    then have "k - 24 < 8" by linarith
    with 4 show ?thesis by (auto simp add: int_bytes_nth bit_simps)
  next
    case 5
    then show ?thesis by (auto simp add: int_bytes_nth bit_simps)
  qed
qed

lemma unat_ucast_low: "unat (u :: 64 word) < 2 ^ 32 \<Longrightarrow> unat (ucast u :: 32 word) = unat u"
  by (simp add: unsigned_ucast_eq take_bit_nat_eq_self_iff)

lemma unat_of_nat_length: "n < 2 ^ 64 \<Longrightarrow> unat (of_nat n :: 64 word) = n"
  by (simp add: unat_of_nat)

lemma encodeInt_eq: "encodeInt u = int_bytes u"
  by (simp add: encodeInt_def writeInt_def StringSink_call_def empty_StringSink_def Let_def)

subsection \<open>Reading from a memory source\<close>

text \<open>With enough bytes left, one call of the reader serves the whole request.\<close>

lemma Source_loop_StringSource:
  assumes "pos src + len \<le> length (s src)"
  shows "Source_loop StringSource_read src got len =
           Some (Inr (got @ take len (drop (pos src) (s src))), src\<lparr>pos := pos src + len\<rparr>)"
proof (cases "len = 0")
  case True
  then show ?thesis by (simp add: Source_loop.simps)
next
  case False
  with assms have lt: "pos src < length (s src)" by simp
  from assms have len: "length (take len (drop (pos src) (s src))) = len" by simp
  show ?thesis
    apply (subst Source_loop.simps)
    using False lt len
    apply (simp add: StringSource_read_def Let_def)
    apply (subst Source_loop.simps)
    apply (simp add: min_def)
    done
qed

lemma Source_call_StringSource:
  "pos src + len \<le> length (s src) \<Longrightarrow>
   Source_call StringSource_read src len =
     Some (Inr (take len (drop (pos src) (s src))), src\<lparr>pos := pos src + len\<rparr>)"
  by (simp add: Source_call_def Source_loop_StringSource)

subsection \<open>Integers\<close>

lemma readInt_int_bytes:
  assumes "Source_call rd src 8 = Some (Inr (int_bytes u), src1)"
  shows "readInt rd src =
           Some (if unat u < 2 ^ 32 then Inr (ucast u) else Inl SerialisationError, src1)"
proof -
  have hi: "(int_bytes u ! 4 \<noteq> 0 \<or> int_bytes u ! 5 \<noteq> 0 \<or> int_bytes u ! 6 \<noteq> 0 \<or> int_bytes u ! 7 \<noteq> 0)
            = (\<not> unat u < 2 ^ 32)"
    using high_bytes_zero_iff [of u] by blast
  have "readInt rd src =
      (if int_bytes u ! 4 \<noteq> 0 \<or> int_bytes u ! 5 \<noteq> 0 \<or> int_bytes u ! 6 \<noteq> 0 \<or> int_bytes u ! 7 \<noteq> 0
       then Some (Inl SerialisationError, src1)
       else Some (Inr (ucast (int_bytes u ! 0) OR push_bit 8 (ucast (int_bytes u ! 1))
                       OR push_bit 16 (ucast (int_bytes u ! 2)) OR push_bit 24 (ucast (int_bytes u ! 3))),
                  src1))"
    unfolding readInt_def assms by simp
  then have "readInt rd src =
      (if \<not> unat u < 2 ^ 32 then Some (Inl SerialisationError, src1)
       else Some (Inr (ucast u), src1))"
    unfolding hi low_bytes_value .
  then show ?thesis by simp
qed

lemma readInt_rejects:
  assumes "Source_call rd src 8 = Some (Inr buf, src1)"
    and "buf ! 4 \<noteq> 0 \<or> buf ! 5 \<noteq> 0 \<or> buf ! 6 \<noteq> 0 \<or> buf ! 7 \<noteq> 0"
  shows "readInt rd src = Some (Inl SerialisationError, src1)"
  using assms(2) unfolding readInt_def assms(1) by simp

text \<open>
  C3. Let the next 8 bytes of a source be the encoding of the 64-bit value \<open>u\<close>. If
  \<open>u < 2 ^ 32\<close>, \<^verbatim>\<open>readInt\<close> returns \<open>u\<close>; if \<open>u \<ge> 2 ^ 32\<close>, it fails with
  \<^verbatim>\<open>SerialisationError\<close>. In both cases the source is left behind the 8 bytes.
\<close>

theorem readInt_of_writeInt:
  assumes "Source_call rd src 8 = Some (Inr (encodeInt u), src1)"
  shows "(unat u < 2 ^ 32 \<longrightarrow>
            readInt rd src = Some (Inr (ucast u), src1) \<and> unat (ucast u :: 32 word) = unat u)
       \<and> (2 ^ 32 \<le> unat u \<longrightarrow> readInt rd src = Some (Inl SerialisationError, src1))"
  using readInt_int_bytes [of rd src u src1] assms unat_ucast_low [of u]
  by (simp add: encodeInt_eq)

text \<open>The values \<open>0x12345678\<close> and \<open>2 ^ 32\<close> through a memory sink and source.\<close>

theorem readInt_of_writeInt_witness:
  "Source_call StringSource_read (StringSource_on (encodeInt 305419896)) 8
      = Some (Inr (encodeInt 305419896), \<lparr>s = encodeInt 305419896, pos = 8\<rparr>)
   \<and> unat (305419896 :: 64 word) < 2 ^ 32
   \<and> readInt StringSource_read (StringSource_on (encodeInt 305419896))
      = Some (Inr 305419896, \<lparr>s = [120, 86, 52, 18, 0, 0, 0, 0], pos = 8\<rparr>)
   \<and> Source_call StringSource_read (StringSource_on (encodeInt 4294967296)) 8
      = Some (Inr (encodeInt 4294967296), \<lparr>s = encodeInt 4294967296, pos = 8\<rparr>)
   \<and> 2 ^ 32 \<le> unat (4294967296 :: 64 word)
   \<and> readInt StringSource_read (StringSource_on (encodeInt 4294967296))
      = Some (Inl SerialisationError, \<lparr>s = [0, 0, 0, 0, 1, 0, 0, 0], pos = 8\<rparr>)"
proof -
  have b1: "encodeInt 305419896 = [120, 86, 52, 18, 0, 0, 0, 0]"
    by (simp add: encodeInt_eq int_bytes_def upt_rec drop_bit_eq_div)
  have b2: "encodeInt 4294967296 = [0, 0, 0, 0, 1, 0, 0, 0]"
    by (simp add: encodeInt_eq int_bytes_def upt_rec drop_bit_eq_div)
  have h1: "Source_call StringSource_read (StringSource_on (encodeInt 305419896)) 8
      = Some (Inr (encodeInt 305419896), \<lparr>s = encodeInt 305419896, pos = 8\<rparr>)"
    by (simp add: Source_call_StringSource StringSource_on_def b1)
  have h2: "Source_call StringSource_read (StringSource_on (encodeInt 4294967296)) 8
      = Some (Inr (encodeInt 4294967296), \<lparr>s = encodeInt 4294967296, pos = 8\<rparr>)"
    by (simp add: Source_call_StringSource StringSource_on_def b2)
  from readInt_of_writeInt [OF h1] readInt_of_writeInt [OF h2] h1 h2 b1 b2
  show ?thesis by simp
qed

text \<open>
  C10. If the 8 bytes of the count or length field have a nonzero byte at one of the
  positions 4 to 7, the unbounded \<^verbatim>\<open>readString\<close> and \<^verbatim>\<open>readStrings\<close> (for every container)
  fail with \<^verbatim>\<open>SerialisationError\<close>, with the source left right behind the field and without
  any allocation. For the encoding of a value \<open>v\<close> some such byte is nonzero exactly when
  \<open>v \<ge> 2 ^ 32\<close>.
\<close>

theorem wide_count_rejected:
  assumes "Source_call rd src 8 = Some (Inr buf, src1)"
    and "buf ! 4 \<noteq> 0 \<or> buf ! 5 \<noteq> 0 \<or> buf ! 6 \<noteq> 0 \<or> buf ! 7 \<noteq> 0"
  shows "readString rd src = Some (Inl SerialisationError, src1, [])
       \<and> readStrings rd ss0 ins src = Some (Inl SerialisationError, src1, [])
       \<and> readStrings_Paths rd src = Some (Inl SerialisationError, src1, [])
       \<and> readStrings_PathSet rd src = Some (Inl SerialisationError, src1, [])
       \<and> ((encodeInt v ! 4 \<noteq> 0 \<or> encodeInt v ! 5 \<noteq> 0 \<or> encodeInt v ! 6 \<noteq> 0 \<or> encodeInt v ! 7 \<noteq> 0)
            = (2 ^ 32 \<le> unat v))"
proof -
  have "(encodeInt v ! 4 \<noteq> 0 \<or> encodeInt v ! 5 \<noteq> 0 \<or> encodeInt v ! 6 \<noteq> 0 \<or> encodeInt v ! 7 \<noteq> 0)
            = (2 ^ 32 \<le> unat v)"
    unfolding encodeInt_eq using high_bytes_zero_iff [of v] by (simp only: not_less [symmetric]) blast
  then show ?thesis
    using readInt_rejects [OF assms]
    by (simp add: readString_def readStrings_def readStrings_Paths_def readStrings_PathSet_def)
qed

theorem wide_count_rejected_witness:
  "Source_call StringSource_read (StringSource_on wide_count_stream) 8
      = Some (Inr [0, 0, 0, 0, 1, 0, 0, 0], \<lparr>s = wide_count_stream, pos = 8\<rparr>)
   \<and> readString StringSource_read (StringSource_on wide_count_stream)
      = Some (Inl SerialisationError, \<lparr>s = wide_count_stream, pos = 8\<rparr>, [])
   \<and> readStrings_Paths StringSource_read (StringSource_on wide_count_stream)
      = Some (Inl SerialisationError, \<lparr>s = wide_count_stream, pos = 8\<rparr>, [])
   \<and> readStrings_PathSet StringSource_read (StringSource_on wide_count_stream)
      = Some (Inl SerialisationError, \<lparr>s = wide_count_stream, pos = 8\<rparr>, [])
   \<and> encodeInt 4294967296 = [0, 0, 0, 0, 1, 0, 0, 0]
   \<and> 2 ^ 32 \<le> unat (4294967296 :: 64 word)"
proof -
  have h: "Source_call StringSource_read (StringSource_on wide_count_stream) 8
      = Some (Inr [0, 0, 0, 0, 1, 0, 0, 0], \<lparr>s = wide_count_stream, pos = 8\<rparr>)"
    by (simp add: Source_call_StringSource StringSource_on_def wide_count_stream_def)
  have n: "[0, 0, 0, 0, 1, 0, 0, 0 :: byte] ! 4 \<noteq> 0 \<or> [0, 0, 0, 0, 1, 0, 0, 0 :: byte] ! 5 \<noteq> 0
      \<or> [0, 0, 0, 0, 1, 0, 0, 0 :: byte] ! 6 \<noteq> 0 \<or> [0, 0, 0, 0, 1, 0, 0, 0 :: byte] ! 7 \<noteq> 0"
    by simp
  have b: "encodeInt 4294967296 = [0, 0, 0, 0, 1, 0, 0, 0]"
    by (simp add: encodeInt_eq int_bytes_def upt_rec drop_bit_eq_div)
  from wide_count_rejected [OF h n, of "[]" "\<lambda>ss x. ss @ [x]" 4294967296] h b
  show ?thesis by simp
qed

subsection \<open>Strings\<close>

lemma writeString_StringSink:
  "fst (writeString StringSink_call b snk) = None
   \<and> str (snd (writeString StringSink_call b snk))
       = str snk @ int_bytes (of_nat (length b)) @ b @ replicate (padding (length b)) 0"
  by (simp add: writeString_def writeInt_def writePadding_def StringSink_call_def Let_def padding_def)

lemma encodeString_eq:
  "encodeString b = int_bytes (of_nat (length b)) @ b @ replicate (padding (length b)) 0"
  using writeString_StringSink [of b empty_StringSink]
  by (simp add: encodeString_def empty_StringSink_def)

lemma length_encodeString: "length (encodeString b) = 8 + length b + padding (length b)"
  by (simp add: encodeString_eq length_int_bytes)

lemma readPadding_result:
  assumes "len mod 8 \<noteq> 0"
    and "Source_call rd src (8 - len mod 8) = Some (Inr zero, src1)"
    and "length zero = 8 - len mod 8"
  shows "readPadding rd len src =
           Some (if \<exists>b\<in>set zero. b \<noteq> 0 then Inl SerialisationError else Inr (), src1)"
proof -
  have "list_ex (\<lambda>i. zero ! i \<noteq> 0) [0..<length zero] = (\<exists>i<length zero. zero ! i \<noteq> 0)"
    by (auto simp add: list_ex_iff)
  also have "\<dots> = (\<exists>b\<in>set zero. b \<noteq> 0)"
    by (metis in_set_conv_nth)
  finally have "list_ex (\<lambda>i. zero ! i \<noteq> 0) [0..<8 - len mod 8] = (\<exists>b\<in>set zero. b \<noteq> 0)"
    unfolding assms(3) .
  then show ?thesis
    using assms(1) by (simp add: readPadding_def Let_def assms(2))
qed

lemma readPadding_StringSource:
  assumes "s src = pre @ replicate (padding len) 0" and "pos src = length pre"
  shows "readPadding StringSource_read len src = Some (Inr (), src\<lparr>pos := length (s src)\<rparr>)"
proof (cases "len mod 8 = 0")
  case True
  then show ?thesis using assms by (simp add: readPadding_def padding_def)
next
  case False
  then have p: "padding len = 8 - len mod 8" by (simp add: padding_def)
  have c: "Source_call StringSource_read src (8 - len mod 8)
        = Some (Inr (replicate (8 - len mod 8) 0), src\<lparr>pos := length (s src)\<rparr>)"
    using assms p by (simp add: Source_call_StringSource)
  from readPadding_result [OF False c] show ?thesis by simp
qed

lemma readInt_encodeString:
  assumes "length b < 2 ^ 64"
  shows "readInt StringSource_read (StringSource_on (encodeString b)) =
     Some (if length b < 2 ^ 32 then Inr (ucast (of_nat (length b) :: 64 word))
           else Inl SerialisationError,
           \<lparr>s = encodeString b, pos = 8\<rparr>)"
proof -
  have "Source_call StringSource_read (StringSource_on (encodeString b)) 8
      = Some (Inr (int_bytes (of_nat (length b))), \<lparr>s = encodeString b, pos = 8\<rparr>)"
    by (simp add: Source_call_StringSource StringSource_on_def length_encodeString)
       (simp add: encodeString_eq length_int_bytes)
  from readInt_int_bytes [OF this] unat_of_nat_length [OF assms] show ?thesis
    by simp
qed

lemma payload_StringSource:
  "Source_call StringSource_read \<lparr>s = encodeString b, pos = 8\<rparr> (length b)
     = Some (Inr b, \<lparr>s = encodeString b, pos = 8 + length b\<rparr>)"
  by (simp add: Source_call_StringSource length_encodeString)
     (simp add: encodeString_eq length_int_bytes)

lemma padding_StringSource:
  "readPadding StringSource_read (length b) \<lparr>s = encodeString b, pos = 8 + length b\<rparr>
     = Some (Inr (), \<lparr>s = encodeString b, pos = length (encodeString b)\<rparr>)"
  using readPadding_StringSource
    [of "\<lparr>s = encodeString b, pos = 8 + length b\<rparr>" "int_bytes (of_nat (length b)) @ b" "length b"]
  by (simp add: encodeString_eq length_int_bytes)

lemma replicate_3: "replicate 3 x = [x, x, x]"
  by (simp add: numeral_3_eq_3)

lemma length_four_GiB: "length four_GiB = 2 ^ 32"
  by (simp add: four_GiB_def)

lemma readInt_four_GiB:
  "readInt StringSource_read (StringSource_on (encodeString four_GiB)) =
     Some (Inl SerialisationError, \<lparr>s = encodeString four_GiB, pos = 8\<rparr>)"
proof -
  have "length four_GiB < 2 ^ 64" by (simp add: length_four_GiB)
  from readInt_encodeString [OF this] show ?thesis
    by (simp add: length_four_GiB)
qed

text \<open>
  C2 (amended). For every byte string \<open>b\<close> the encoding has length
  \<open>8 + length b + padding (length b)\<close> with \<open>padding n = (8 - n mod 8) mod 8\<close>, which is 0
  when the length is a multiple of 8. If \<open>length b < 2 ^ 32\<close>, decoding the encoding with the
  unbounded \<^verbatim>\<open>readString\<close>, or with the bounded one and a maximum of at least \<open>length b\<close>,
  returns \<open>b\<close> and consumes the whole encoding.
\<close>

theorem string_roundtrip:
  "length (encodeString b) = 8 + length b + padding (length b)
   \<and> padding (length b) = (8 - length b mod 8) mod 8
   \<and> (length b mod 8 = 0 \<longrightarrow> padding (length b) = 0)
   \<and> (length b < 2 ^ 32 \<longrightarrow>
        readString StringSource_read (StringSource_on (encodeString b))
          = Some (Inr b, \<lparr>s = encodeString b, pos = length (encodeString b)\<rparr>, [length b])
        \<and> (\<forall>maxlen\<ge>length b.
             readString_max StringSource_read maxlen (StringSource_on (encodeString b))
               = Some (Inr b, \<lparr>s = encodeString b, pos = length (encodeString b)\<rparr>)))"
proof -
  have rt: "readString StringSource_read (StringSource_on (encodeString b))
          = Some (Inr b, \<lparr>s = encodeString b, pos = length (encodeString b)\<rparr>, [length b])"
    and rtm: "readString_max StringSource_read maxlen (StringSource_on (encodeString b))
               = Some (Inr b, \<lparr>s = encodeString b, pos = length (encodeString b)\<rparr>)"
    if lt: "length b < 2 ^ 32" and mx: "length b \<le> maxlen" for maxlen
  proof -
    from lt have lt64: "length b < 2 ^ 64" by simp
    from lt have "unat (of_nat (length b) :: 64 word) < 2 ^ 32"
      by (simp add: unat_of_nat_length [OF lt64])
    from unat_ucast_low [OF this]
    have u: "unat (ucast (of_nat (length b) :: 64 word) :: 32 word) = length b"
      by (simp add: unat_of_nat_length [OF lt64])
    from readInt_encodeString [OF lt64] lt
    have r: "readInt StringSource_read (StringSource_on (encodeString b)) =
       Some (Inr (ucast (of_nat (length b) :: 64 word)), \<lparr>s = encodeString b, pos = 8\<rparr>)"
      by simp
    show "readString StringSource_read (StringSource_on (encodeString b))
          = Some (Inr b, \<lparr>s = encodeString b, pos = length (encodeString b)\<rparr>, [length b])"
      by (simp add: readString_def r u payload_StringSource padding_StringSource)
    show "readString_max StringSource_read maxlen (StringSource_on (encodeString b))
               = Some (Inr b, \<lparr>s = encodeString b, pos = length (encodeString b)\<rparr>)"
      using mx by (simp add: readString_max_def r u payload_StringSource padding_StringSource)
  qed
  have "length b mod 8 = 0 \<longrightarrow> padding (length b) = 0" by (simp add: padding_def)
  moreover have "padding (length b) = (8 - length b mod 8) mod 8" by (simp add: padding_def)
  moreover note length_encodeString [of b] rt [OF _ le_refl] rtm
  ultimately show ?thesis by blast
qed

text \<open>The string hello, and a string of 8 bytes, which takes no padding.\<close>

theorem string_roundtrip_witness:
  "length [104, 101, 108, 108, 111 :: byte] < 2 ^ 32
   \<and> encodeString [104, 101, 108, 108, 111]
       = [5, 0, 0, 0, 0, 0, 0, 0, 104, 101, 108, 108, 111, 0, 0, 0]
   \<and> readString StringSource_read (StringSource_on (encodeString [104, 101, 108, 108, 111]))
       = Some (Inr [104, 101, 108, 108, 111],
               \<lparr>s = [5, 0, 0, 0, 0, 0, 0, 0, 104, 101, 108, 108, 111, 0, 0, 0], pos = 16\<rparr>, [5])
   \<and> readString_max StringSource_read 5 (StringSource_on (encodeString [104, 101, 108, 108, 111]))
       = Some (Inr [104, 101, 108, 108, 111],
               \<lparr>s = [5, 0, 0, 0, 0, 0, 0, 0, 104, 101, 108, 108, 111, 0, 0, 0], pos = 16\<rparr>)
   \<and> length (encodeString [1, 2, 3, 4, 5, 6, 7, 8]) = 16
   \<and> padding (length [1, 2, 3, 4, 5, 6, 7, 8 :: byte]) = 0"
proof -
  have l: "length [104, 101, 108, 108, 111 :: byte] = 5" by simp
  have p: "padding 5 = 3" by (simp add: padding_def)
  have e: "encodeString [104, 101, 108, 108, 111]
       = [5, 0, 0, 0, 0, 0, 0, 0, 104, 101, 108, 108, 111, 0, 0, 0]"
    unfolding encodeString_eq l p replicate_3
    by (simp add: int_bytes_def upt_rec drop_bit_eq_div)
  have l8: "length [1, 2, 3, 4, 5, 6, 7, 8 :: byte] = 8" by simp
  have p8: "padding 8 = 0" by (simp add: padding_def)
  from string_roundtrip [of "[104, 101, 108, 108, 111]"]
       string_roundtrip [of "[1, 2, 3, 4, 5, 6, 7, 8]"]
  show ?thesis unfolding e l l8 p p8 by simp
qed

text \<open>
  C2, the string of 4 GiB: its length does not fit in 32 bits, and decoding its encoding
  fails with \<^verbatim>\<open>SerialisationError\<close> behind the length field instead of returning the string.
\<close>

theorem string_roundtrip_counterexample:
  "readString StringSource_read (StringSource_on (encodeString four_GiB))
     = Some (Inl SerialisationError, \<lparr>s = encodeString four_GiB, pos = 8\<rparr>, [])
   \<and> readString StringSource_read (StringSource_on (encodeString four_GiB))
     \<noteq> Some (Inr four_GiB, \<lparr>s = encodeString four_GiB, pos = length (encodeString four_GiB)\<rparr>,
             [length four_GiB])"
  by (simp add: readString_def readInt_four_GiB)

text \<open>
  C4 (amended). Let the next 8 bytes of a source be the encoding of a length \<open>L\<close> beyond the
  caller's maximum. The bounded \<^verbatim>\<open>readString\<close> fails with the source left right behind
  the length field: with \<^verbatim>\<open>Error\<close> (string is too long) if \<open>L < 2 ^ 32\<close>, and with
  \<^verbatim>\<open>SerialisationError\<close> otherwise. The bounded reader contains no allocation.
\<close>

theorem readString_max_too_long:
  assumes "Source_call rd src 8 = Some (Inr (encodeInt L), src1)"
    and "maxlen < unat L"
  shows "readString_max rd maxlen src =
           Some (Inl (if unat L < 2 ^ 32 then Error else SerialisationError), src1)"
proof -
  from assms(1) have r: "readInt rd src =
      Some (if unat L < 2 ^ 32 then Inr (ucast L) else Inl SerialisationError, src1)"
    unfolding encodeInt_eq by (rule readInt_int_bytes)
  show ?thesis
  proof (cases "unat L < 2 ^ 32")
    case True
    with unat_ucast_low [OF True] assms(2) r show ?thesis
      by (simp add: readString_max_def)
  next
    case False
    with r show ?thesis by (simp add: readString_max_def)
  qed
qed

text \<open>A string of nine bytes read with a maximum of eight.\<close>

theorem readString_max_too_long_witness:
  "Source_call StringSource_read (StringSource_on long_field_stream) 8
      = Some (Inr (encodeInt 9), \<lparr>s = long_field_stream, pos = 8\<rparr>)
   \<and> 8 < unat (9 :: 64 word)
   \<and> readString_max StringSource_read 8 (StringSource_on long_field_stream)
      = Some (Inl Error, \<lparr>s = long_field_stream, pos = 8\<rparr>)"
proof -
  have b: "encodeInt 9 = [9, 0, 0, 0, 0, 0, 0, 0]"
    by (simp add: encodeInt_eq int_bytes_def upt_rec drop_bit_eq_div)
  have h: "Source_call StringSource_read (StringSource_on long_field_stream) 8
      = Some (Inr (encodeInt 9), \<lparr>s = long_field_stream, pos = 8\<rparr>)"
    by (simp add: Source_call_StringSource StringSource_on_def long_field_stream_def b)
  have m: "8 < unat (9 :: 64 word)" by simp
  from readString_max_too_long [OF h m] h m show ?thesis by simp
qed

text \<open>
  C4, the length \<open>2 ^ 32\<close> and the maximum 0: the error is \<^verbatim>\<open>SerialisationError\<close>, not
  the capacity error \<^verbatim>\<open>Error\<close>.
\<close>

theorem readString_max_too_long_counterexample:
  "Source_call StringSource_read (StringSource_on (encodeString four_GiB)) 8
     = Some (Inr (encodeInt (of_nat (length four_GiB))), \<lparr>s = encodeString four_GiB, pos = 8\<rparr>)
   \<and> 0 < length four_GiB
   \<and> readString_max StringSource_read 0 (StringSource_on (encodeString four_GiB))
     = Some (Inl SerialisationError, \<lparr>s = encodeString four_GiB, pos = 8\<rparr>)
   \<and> readString_max StringSource_read 0 (StringSource_on (encodeString four_GiB))
     \<noteq> Some (Inl Error, \<lparr>s = encodeString four_GiB, pos = 8\<rparr>)"
proof -
  have c: "Source_call StringSource_read (StringSource_on (encodeString four_GiB)) 8
     = Some (Inr (encodeInt (of_nat (length four_GiB))), \<lparr>s = encodeString four_GiB, pos = 8\<rparr>)"
    by (simp add: Source_call_StringSource StringSource_on_def length_encodeString)
       (simp add: encodeString_eq encodeInt_eq length_int_bytes)
  have "0 < length four_GiB" by (simp add: length_four_GiB)
  with c show ?thesis by (simp add: readString_max_def readInt_four_GiB)
qed









subsection \<open>The descriptor source\<close>

text \<open>Rounds in which the system call is interrupted only move the descriptor on.\<close>

lemma readUnbuffered_after_EINTR:
  "after_EINTR chk rd (bufSize_in src) k (fd_in src) = Some d1 \<Longrightarrow>
   FdSource_readUnbuffered chk rd src len = FdSource_readUnbuffered chk rd (src\<lparr>fd_in := d1\<rparr>) len"
proof (induction k arbitrary: src)
  case 0
  then have "d1 = fd_in src" by simp
  then show ?case by simp
next
  case (Suc k)
  from Suc.prems have nc: "\<not> chk (fd_in src)" by (simp split: if_splits)
  from Suc.prems nc obtain d2 where
    r: "rd (fd_in src) (bufSize_in src) = (ReadEINTR, d2)"
    and a: "after_EINTR chk rd (bufSize_in src) k d2 = Some d1"
    by (auto split: prod.splits read_result.splits)
  have "FdSource_readUnbuffered chk rd src len
      = FdSource_readUnbuffered chk rd (src\<lparr>fd_in := d2\<rparr>) len"
    by (subst FdSource_readUnbuffered.simps) (simp add: nc r)
  also have "\<dots> = FdSource_readUnbuffered chk rd (src\<lparr>fd_in := d2, fd_in := d1\<rparr>) len"
    using Suc.IH [of "src\<lparr>fd_in := d2\<rparr>"] a by simp
  finally show ?case by simp
qed

text \<open>
  C7. Let the system call be interrupted \<open>k\<close> times, for any \<open>k\<close>, with no interrupt
  pending, and then deliver the bytes \<open>bs\<close>. If \<open>bs\<close> is not empty,
  \<^verbatim>\<open>FdSource::readUnbuffered\<close> returns exactly \<open>bs\<close>, with the descriptor as that one call left
  it and the counter \<^verbatim>\<open>read\<close> advanced by their number. If \<open>bs\<close> is empty it throws
  \<^verbatim>\<open>EndOfFile\<close> and \<^verbatim>\<open>good()\<close> is false afterwards.
\<close>

theorem readUnbuffered_retries:
  assumes "after_EINTR chk rd (bufSize_in src) k (fd_in src) = Some d1"
    and "\<not> chk d1"
    and "rd d1 (bufSize_in src) = (ReadBytes bs, d2)"
  shows "FdSource_readUnbuffered chk rd src len =
           (if bs = [] then Some (Inl EndOfFile, src\<lparr>fd_in := d2, good_in := False\<rparr>)
            else Some (Inr bs, src\<lparr>fd_in := d2, read := read src + length bs\<rparr>))
       \<and> (bs = [] \<longrightarrow>
            (\<exists>src'. FdSource_readUnbuffered chk rd src len = Some (Inl EndOfFile, src')
                    \<and> \<not> FdSource_good src'))"
proof -
  have "FdSource_readUnbuffered chk rd (src\<lparr>fd_in := d1\<rparr>) len =
           (if bs = [] then Some (Inl EndOfFile, src\<lparr>fd_in := d2, good_in := False\<rparr>)
            else Some (Inr bs, src\<lparr>fd_in := d2, read := read src + length bs\<rparr>))"
    by (subst FdSource_readUnbuffered.simps) (simp add: assms(2,3))
  with readUnbuffered_after_EINTR [OF assms(1), of len] show ?thesis
    by (simp add: FdSource_good_def)
qed

text \<open>Two interrupted calls and then three bytes; one interrupted call and then no bytes.\<close>

theorem readUnbuffered_retries_witness:
  "after_EINTR never_interrupted scripted_read 4 2
      [ReadEINTR, ReadEINTR, ReadBytes [10, 20, 30], ReadBytes [40]] = Some [ReadBytes [10, 20, 30], ReadBytes [40]]
   \<and> FdSource_readUnbuffered never_interrupted scripted_read
        (fresh_FdSource 4 [ReadEINTR, ReadEINTR, ReadBytes [10, 20, 30], ReadBytes [40]]) 4
      = Some (Inr [10, 20, 30], (fresh_FdSource 4 [ReadBytes [40]])\<lparr>read := 3\<rparr>)
   \<and> FdSource_readUnbuffered never_interrupted scripted_read
        (fresh_FdSource 4 [ReadEINTR, ReadBytes []]) 4
      = Some (Inl EndOfFile, (fresh_FdSource 4 [])\<lparr>good_in := False\<rparr>)"
proof -
  let ?s1 = "fresh_FdSource 4 [ReadEINTR, ReadEINTR, ReadBytes [10, 20, 30], ReadBytes [40]]"
  let ?s2 = "fresh_FdSource 4 [ReadEINTR, ReadBytes []]"
  have a1: "after_EINTR never_interrupted scripted_read (bufSize_in ?s1) 2 (fd_in ?s1)
      = Some [ReadBytes [10, 20, 30], ReadBytes [40]]"
    by (simp add: numeral_2_eq_2 never_interrupted_def scripted_read_def fresh_FdSource_def)
  have n1: "\<not> never_interrupted [ReadBytes [10, 20, 30], ReadBytes [40]]"
    by (simp add: never_interrupted_def)
  have r1: "scripted_read [ReadBytes [10, 20, 30], ReadBytes [40]] (bufSize_in ?s1)
      = (ReadBytes [10, 20, 30], [ReadBytes [40]])"
    by (simp add: scripted_read_def fresh_FdSource_def)
  have a2: "after_EINTR never_interrupted scripted_read (bufSize_in ?s2) 1 (fd_in ?s2)
      = Some [ReadBytes []]"
    by (simp add: never_interrupted_def scripted_read_def fresh_FdSource_def)
  have n2: "\<not> never_interrupted [ReadBytes []]"
    by (simp add: never_interrupted_def)
  have r2: "scripted_read [ReadBytes []] (bufSize_in ?s2) = (ReadBytes [], [])"
    by (simp add: scripted_read_def fresh_FdSource_def)
  from readUnbuffered_retries [OF a1 n1 r1, of 4] readUnbuffered_retries [OF a2 n2 r2, of 4] a1
  show ?thesis by (simp add: fresh_FdSource_def)
qed

text \<open>The result does not depend on \<^verbatim>\<open>len\<close>, whether the loop ends or not.\<close>

lemma readUnbuffered_len_Some:
  assumes "FdSource_readUnbuffered chk0 rd0 src0 len0 = Some y0"
  shows "FdSource_readUnbuffered chk0 rd0 src0 len' = Some y0"
proof (rule FdSource_readUnbuffered.raw_induct
    [where P = "\<lambda>chk rd src len y. FdSource_readUnbuffered chk rd src len' = Some y", OF _ assms],
    goal_cases)
  case (1 f chk rd src len y)
  show ?case
  proof (cases "chk (fd_in src)")
    case True
    with 1(2) show ?thesis by (subst FdSource_readUnbuffered.simps) simp
  next
    case False
    obtain r d1 where rd: "rd (fd_in src) (bufSize_in src) = (r, d1)" by fastforce
    show ?thesis
    proof (cases r)
      case (ReadBytes bs)
      with 1(2) False rd show ?thesis by (subst FdSource_readUnbuffered.simps) simp
    next
      case ReadEINTR
      with 1(2) False rd have "f chk rd (src\<lparr>fd_in := d1\<rparr>) len = Some y" by simp
      from 1(1) [OF this] ReadEINTR False rd show ?thesis
        by (subst FdSource_readUnbuffered.simps) simp
    next
      case ReadFailed
      with 1(2) False rd show ?thesis by (subst FdSource_readUnbuffered.simps) simp
    qed
  qed
qed

lemma readUnbuffered_len:
  "FdSource_readUnbuffered chk rd src len = FdSource_readUnbuffered chk rd src len'"
proof (cases "FdSource_readUnbuffered chk rd src len")
  case None
  show ?thesis
  proof (cases "FdSource_readUnbuffered chk rd src len'")
    case n: None
    with None show ?thesis by simp
  next
    case (Some y)
    from readUnbuffered_len_Some [OF this, of len] None show ?thesis by simp
  qed
next
  case (Some y)
  from readUnbuffered_len_Some [OF this, of len'] Some show ?thesis by simp
qed

lemma stored_in_bounds_fd: "stored_in_bounds (src\<lparr>fd_in := d\<rparr>) y = stored_in_bounds src y"
  by (simp add: stored_in_bounds_def split: prod.splits sum.splits)

lemma readUnbuffered_bound:
  assumes "FdSource_readUnbuffered chk0 rd0 src0 len0 = Some y0"
  shows "sys_read_bounded rd0 \<longrightarrow> stored_in_bounds src0 y0"
proof (rule FdSource_readUnbuffered.raw_induct
    [where P = "\<lambda>chk rd src len y. sys_read_bounded rd \<longrightarrow> stored_in_bounds src y", OF _ assms],
    goal_cases)
  case (1 f chk rd src len y)
  show ?case
  proof (cases "chk (fd_in src)")
    case True
    with 1(2) have "y = (Inl Interrupted, src)" by simp
    then show ?thesis by (simp add: stored_in_bounds_def)
  next
    case False
    obtain r d1 where rd: "rd (fd_in src) (bufSize_in src) = (r, d1)" by fastforce
    show ?thesis
    proof (cases r)
      case (ReadBytes cs)
      have b: "sys_read_bounded rd \<Longrightarrow> length cs \<le> bufSize_in src"
        using rd ReadBytes unfolding sys_read_bounded_def by blast
      show ?thesis
      proof (cases "length cs = 0")
        case True
        with 1(2) False rd ReadBytes
        have "y = (Inl EndOfFile, src\<lparr>fd_in := d1, good_in := False\<rparr>)" by simp
        then show ?thesis by (simp add: stored_in_bounds_def)
      next
        case nz: False
        with 1(2) False rd ReadBytes
        have "y = (Inr cs, src\<lparr>fd_in := d1, read := read src + length cs\<rparr>)" by simp
        with b nz show ?thesis by (simp add: stored_in_bounds_def)
      qed
    next
      case ReadEINTR
      with 1(2) False rd have "f chk rd (src\<lparr>fd_in := d1\<rparr>) len = Some y" by simp
      from 1(1) [OF this] show ?thesis by (simp only: stored_in_bounds_fd)
    next
      case ReadFailed
      with 1(2) False rd
      have "y = (Inl SysError, src\<lparr>fd_in := d1, good_in := False\<rparr>)" by simp
      then show ?thesis by (simp add: stored_in_bounds_def)
    qed
  qed
qed

lemma scripted_read_bounded: "sys_read_bounded scripted_read"
  by (auto simp add: sys_read_bounded_def scripted_read_def split: list.splits read_result.splits)

lemma refill_keeps_capacity:
  assumes b: "sys_read_bounded rd"
    and cap: "length (buffer_in_get src) = bufSize_in src"
    and r: "BufferedSource_refill (FdSource_readUnbuffered chk rd) src = Some (Inr u, src1)"
  shows "length (buffer_in_get src1) = bufSize_in src \<and> bufSize_in src1 = bufSize_in src"
proof (cases "bufPosIn src = 0")
  case False
  with r cap show ?thesis by (simp add: BufferedSource_refill_def)
next
  case True
  with r obtain bs src2 where
    ru: "FdSource_readUnbuffered chk rd src (bufSize_in src) = Some (Inr bs, src2)"
    and s1: "src1 = src2\<lparr>buffer_in := Some (buffer_store (buffer_in_get src2) 0 bs),
                          bufPosIn := length bs\<rparr>"
    by (auto simp add: BufferedSource_refill_def split: option.splits prod.splits sum.splits)
  from readUnbuffered_bound [OF ru] b
  have "length bs \<le> bufSize_in src" "bufSize_in src2 = bufSize_in src"
    "buffer_in src2 = buffer_in src"
    by (simp_all add: stored_in_bounds_def)
  with cap s1 show ?thesis
    by (simp add: buffer_in_get_def buffer_store_def)
qed

text \<open>
  C9. \<^verbatim>\<open>FdSource::readUnbuffered\<close> returns the same for every \<^verbatim>\<open>len\<close>. With a system call that
  stores at most \<^verbatim>\<open>count\<close> bytes, it stores between 1 and \<^verbatim>\<open>bufSize\<close> bytes at \<^verbatim>\<open>data\<close> when it
  returns, so a destination of \<^verbatim>\<open>bufSize\<close> bytes is enough; and \<^verbatim>\<open>BufferedSource::read\<close>, on a
  source whose buffer is not allocated yet or has \<^verbatim>\<open>bufSize\<close> bytes, leaves a buffer of
  exactly \<^verbatim>\<open>bufSize\<close> bytes: the refill does not write past its end. The bound is not
  \<^verbatim>\<open>len\<close>: with \<^verbatim>\<open>bufSize\<close> 4 and \<^verbatim>\<open>len\<close> 1, on a descriptor with five bytes ready, four
  bytes are stored.
\<close>

theorem readUnbuffered_ignores_len:
  "FdSource_readUnbuffered chk rd src len = FdSource_readUnbuffered chk rd src len'
   \<and> (sys_read_bounded rd \<and> FdSource_readUnbuffered chk rd src len = Some (Inr bs, src1)
        \<longrightarrow> 0 < length bs \<and> length bs \<le> bufSize_in src)
   \<and> (sys_read_bounded rd
        \<and> (buffer_in bsrc = None \<or> length (buffer_in_get bsrc) = bufSize_in bsrc)
        \<and> BufferedSource_read (FdSource_readUnbuffered chk rd) bsrc n = Some (Inr out, bsrc1)
        \<longrightarrow> length (buffer_in_get bsrc1) = bufSize_in bsrc \<and> bufSize_in bsrc1 = bufSize_in bsrc)
   \<and> sys_read_bounded scripted_read
   \<and> FdSource_readUnbuffered never_interrupted scripted_read
         (fresh_FdSource 4 [ReadBytes [1, 2, 3, 4, 5]]) 1
       = Some (Inr [1, 2, 3, 4], (fresh_FdSource 4 [ReadBytes [5]])\<lparr>read := 4\<rparr>)"
proof -
  have p2: "0 < length bs \<and> length bs \<le> bufSize_in src"
    if "sys_read_bounded rd" "FdSource_readUnbuffered chk rd src len = Some (Inr bs, src1)"
    using readUnbuffered_bound [OF that(2)] that(1) by (simp add: stored_in_bounds_def)
  have p3: "length (buffer_in_get bsrc1) = bufSize_in bsrc \<and> bufSize_in bsrc1 = bufSize_in bsrc"
    if b: "sys_read_bounded rd"
      and cap: "buffer_in bsrc = None \<or> length (buffer_in_get bsrc) = bufSize_in bsrc"
      and rr: "BufferedSource_read (FdSource_readUnbuffered chk rd) bsrc n = Some (Inr out, bsrc1)"
  proof -
    let ?a = "if buffer_in bsrc = None
              then bsrc\<lparr>buffer_in := Some (replicate (bufSize_in bsrc) 0)\<rparr> else bsrc"
    from cap have ca: "length (buffer_in_get ?a) = bufSize_in ?a"
      by (auto simp add: buffer_in_get_def)
    from rr obtain u src2 where
      rf: "BufferedSource_refill (FdSource_readUnbuffered chk rd) ?a = Some (Inr u, src2)"
      and o: "bsrc1 = (let n' = (if n > bufPosIn src2 - bufPosOut src2
                                then bufPosIn src2 - bufPosOut src2 else n);
                          src3 = src2\<lparr>bufPosOut := bufPosOut src2 + n'\<rparr>
                      in if bufPosIn src3 = bufPosOut src3
                         then src3\<lparr>bufPosIn := 0, bufPosOut := 0\<rparr> else src3)"
      unfolding BufferedSource_read_def Let_def
      by (auto split: option.splits prod.splits sum.splits if_splits)
    from refill_keeps_capacity [OF b ca rf]
    have "length (buffer_in_get src2) = bufSize_in bsrc \<and> bufSize_in src2 = bufSize_in bsrc"
      by (simp split: if_splits)
    with o show ?thesis by (simp add: Let_def buffer_in_get_def)
  qed
  have p5: "FdSource_readUnbuffered never_interrupted scripted_read
         (fresh_FdSource 4 [ReadBytes [1, 2, 3, 4, 5]]) 1
       = Some (Inr [1, 2, 3, 4], (fresh_FdSource 4 [ReadBytes [5]])\<lparr>read := 4\<rparr>)"
    by (subst FdSource_readUnbuffered.simps)
       (simp add: never_interrupted_def scripted_read_def fresh_FdSource_def)
  from readUnbuffered_len [of chk rd src len len'] p2 p3 scripted_read_bounded p5
  show ?thesis by blast
qed

text \<open>The same descriptor read directly and through the buffer.\<close>

theorem readUnbuffered_ignores_len_witness:
  "FdSource_readUnbuffered never_interrupted scripted_read
       (fresh_FdSource 4 [ReadBytes [1, 2, 3, 4, 5]]) 1
     = FdSource_readUnbuffered never_interrupted scripted_read
       (fresh_FdSource 4 [ReadBytes [1, 2, 3, 4, 5]]) 4
   \<and> sys_read_bounded scripted_read
   \<and> FdSource_readUnbuffered never_interrupted scripted_read
       (fresh_FdSource 4 [ReadBytes [1, 2, 3, 4, 5]]) 1
     = Some (Inr [1, 2, 3, 4], (fresh_FdSource 4 [ReadBytes [5]])\<lparr>read := 4\<rparr>)
   \<and> 1 < length [1, 2, 3, 4 :: byte]
   \<and> length [1, 2, 3, 4 :: byte] \<le> bufSize_in (fresh_FdSource 4 [ReadBytes [1, 2, 3, 4, 5]])
   \<and> buffer_in (fresh_FdSource 4 [ReadBytes [1, 2, 3, 4, 5]]) = None
   \<and> BufferedSource_read (FdSource_readUnbuffered never_interrupted scripted_read)
       (fresh_FdSource 4 [ReadBytes [1, 2, 3, 4, 5]]) 2
     = Some (Inr [1, 2],
         \<lparr>bufSize_in = 4, bufPosIn = 4, bufPosOut = 2, buffer_in = Some [1, 2, 3, 4],
          fd_in = [ReadBytes [5]], read = 4, good_in = True\<rparr>)
   \<and> length (buffer_in_get
         \<lparr>bufSize_in = 4, bufPosIn = 4, bufPosOut = 2, buffer_in = Some [1, 2, 3, 4 :: byte],
          fd_in = [ReadBytes [5]], read = 4 :: nat, good_in = True\<rparr>) = 4"
proof -
  let ?src = "fresh_FdSource 4 [ReadBytes [1, 2, 3, 4, 5]]"
  have ru: "FdSource_readUnbuffered never_interrupted scripted_read ?src k
     = Some (Inr [1, 2, 3, 4], (fresh_FdSource 4 [ReadBytes [5]])\<lparr>read := 4\<rparr>)" for k
    by (subst FdSource_readUnbuffered.simps)
       (simp add: never_interrupted_def scripted_read_def fresh_FdSource_def)
  have n: "buffer_in ?src = None" by (simp add: fresh_FdSource_def)
  have br: "BufferedSource_read (FdSource_readUnbuffered never_interrupted scripted_read) ?src 2
     = Some (Inr [1, 2],
         \<lparr>bufSize_in = 4, bufPosIn = 4, bufPosOut = 2, buffer_in = Some [1, 2, 3, 4],
          fd_in = [ReadBytes [5]], read = 4, good_in = True\<rparr>)"
  proof -
    have a: "?src\<lparr>buffer_in := Some (replicate (bufSize_in ?src) 0)\<rparr>
        = fresh_FdSource 4 [ReadBytes [1, 2, 3, 4, 5]]\<lparr>buffer_in := Some [0, 0, 0, 0]\<rparr>"
      by (simp add: fresh_FdSource_def numeral_eq_Suc)
    have ru': "FdSource_readUnbuffered never_interrupted scripted_read
        \<lparr>bufSize_in = 4, bufPosIn = 0, bufPosOut = 0, buffer_in = Some [0, 0, 0, 0],
         fd_in = [ReadBytes [1, 2, 3, 4, 5]], read = 0, good_in = True\<rparr> k
     = Some (Inr [1, 2, 3, 4],
         \<lparr>bufSize_in = 4, bufPosIn = 0, bufPosOut = 0, buffer_in = Some [0, 0, 0, 0],
          fd_in = [ReadBytes [5]], read = 4, good_in = True\<rparr>)" for k
      by (subst FdSource_readUnbuffered.simps)
         (simp add: never_interrupted_def scripted_read_def)
    show ?thesis
      unfolding BufferedSource_read_def n a
      by (simp add: BufferedSource_refill_def ru' fresh_FdSource_def buffer_store_def
          buffer_in_get_def Let_def)
  qed
  from readUnbuffered_ignores_len
    [of never_interrupted scripted_read ?src 1 4 "[1, 2, 3, 4]"
        "(fresh_FdSource 4 [ReadBytes [5]])\<lparr>read := 4\<rparr>" ?src 2 "[1, 2]"
        "\<lparr>bufSize_in = 4, bufPosIn = 4, bufPosOut = 2, buffer_in = Some [1, 2, 3, 4],
          fd_in = [ReadBytes [5]], read = 4, good_in = True\<rparr>"]
    ru n br
  show ?thesis by (simp add: fresh_FdSource_def buffer_in_get_def)
qed

end
